theory Spec2Isabelle
  imports Complex_Main "HOL-Library.Multiset"
    "HOL-Library.List_Lexorder" "HOL-Library.Char_ord"
begin

section \<open>Numbers, maps and arrays of the host language\<close>

text \<open>
  The program is TypeScript. Its \<^verbatim>\<open>number\<close> values are modelled as exact rationals:
  the allocations, commitments and availabilities the components see are finite
  quantities, and rounding, infinities and NaN are outside this model. A number is
  falsy exactly when it is \<open>0\<close>.

  Component inputs that the source reads through the non-null assertion
  (\<^verbatim>\<open>this.period!\<close>, \<^verbatim>\<open>this.bucket!\<close>, \<^verbatim>\<open>this.people!\<close>, ...) are plain fields of the
  component records: the assertion is the source's own statement that the input is set.
  Inputs that the source tests before use (\<^verbatim>\<open>isEditingEnabled\<close>, \<^verbatim>\<open>groupType\<close>) keep
  their optional type.

  The classes of people, objectives, buckets, periods and teams are declared in modules
  that are not among the sources. Each is a record with the fields that the components
  and the service read.
\<close>

type_synonym number = rat

text \<open>
  A JavaScript \<^verbatim>\<open>Map\<close> iterates in insertion order, and \<^verbatim>\<open>set\<close> on a key that is
  already present keeps the key's position. It is an association list with unique keys.
\<close>

type_synonym ('k, 'v) jsmap = "('k \<times> 'v) list"

definition mapGet :: "('k, 'v) jsmap \<Rightarrow> 'k \<Rightarrow> 'v option" where
  "mapGet m k = map_of m k"

definition mapHas :: "('k, 'v) jsmap \<Rightarrow> 'k \<Rightarrow> bool" where
  "mapHas m k = (mapGet m k \<noteq> None)"

fun mapSet :: "'k \<Rightarrow> 'v \<Rightarrow> ('k, 'v) jsmap \<Rightarrow> ('k, 'v) jsmap" where
  "mapSet k v [] = [(k, v)]"
| "mapSet k v ((k', v') # m) = (if k' = k then (k, v) # m else (k', v') # mapSet k v m)"

section \<open>People component\<close>

record person =
  id_person :: string
  displayName_person :: string
  availability :: number

text \<open>
  The read-only maps handed to the people component are only looked up by key, so
  they are partial functions from the person id.
\<close>

record peopleComponent =
  people :: "person list"
  peopleAllocations :: "string \<rightharpoonup> number"
  peopleCommittedAllocations :: "string \<rightharpoonup> number"
  peopleAssignmentCounts :: "string \<rightharpoonup> number"

definition personAllocated :: "peopleComponent \<Rightarrow> person \<Rightarrow> number" where
  "personAllocated c p =
     (case peopleAllocations c (id_person p) of Some v \<Rightarrow> v | None \<Rightarrow> 0)"

definition personUnallocated :: "peopleComponent \<Rightarrow> person \<Rightarrow> number" where
  "personUnallocated c p = availability p - personAllocated c p"

definition personAssignmentCount :: "peopleComponent \<Rightarrow> person \<Rightarrow> number" where
  "personAssignmentCount c p =
     (case peopleAssignmentCounts c (id_person p) of Some v \<Rightarrow> v | None \<Rightarrow> 0)"

text \<open>
  \<^verbatim>\<open>committed / totalAllocated\<close> is only reached with a non-zero divisor; the guard is
  written out, so the model never relies on what HOL makes of a division by zero.
\<close>

definition personCommitFraction :: "peopleComponent \<Rightarrow> person \<Rightarrow> number" where
  "personCommitFraction c p =
     (let totalAllocated = personAllocated c p in
      if totalAllocated = 0 then 0
      else
        let committed =
              (case peopleCommittedAllocations c (id_person p) of Some v \<Rightarrow> v | None \<Rightarrow> 0)
        in committed / totalAllocated)"

definition isPersonOverallocated :: "peopleComponent \<Rightarrow> person \<Rightarrow> bool" where
  "isPersonOverallocated c p = (personAllocated c p > availability p)"

text \<open>
  \<open>defaultPersonAvailability\<close> runs two loops. The first counts, in a \<^verbatim>\<open>Map\<close>, how many
  people have each availability; \<open>countAvailability\<close> is its body. A count is a natural
  number. The lookup \<^verbatim>\<open>availCounts.get(p.availability)!\<close> comes right after the key was
  set if it was missing, so it finds a count; the branch for a missing key is never
  taken (\<open>countAvailability_present\<close> below). The second loop, with body \<open>pickMode\<close>,
  runs over the entries in insertion order and keeps the first availability with the
  largest count.
\<close>

definition countAvailability :: "person \<Rightarrow> (number, nat) jsmap \<Rightarrow> (number, nat) jsmap" where
  "countAvailability p availCounts =
     (let availCounts1 =
            (if (case mapGet availCounts (availability p) of None \<Rightarrow> True | Some n \<Rightarrow> n = 0)
             then mapSet (availability p) 0 availCounts
             else availCounts)
      in case mapGet availCounts1 (availability p) of
           Some n \<Rightarrow> mapSet (availability p) (n + 1) availCounts1
         | None \<Rightarrow> availCounts1)"

definition pickMode :: "number \<times> nat \<Rightarrow> nat \<times> number \<Rightarrow> nat \<times> number" where
  "pickMode entry acc =
     (case (entry, acc) of
        ((a, freq), (maxFreq, mode)) \<Rightarrow> if freq > maxFreq then (freq, a) else (maxFreq, mode))"

definition defaultPersonAvailability :: "peopleComponent \<Rightarrow> number" where
  "defaultPersonAvailability c =
     (let availCounts = fold countAvailability (people c) [];
          (maxFreq, mode) = fold pickMode availCounts (0, 0)
      in mode)"

section \<open>Bucket component\<close>

text \<open>
  The bucket component compares objectives with \<^verbatim>\<open>===\<close>, which on objects is identity
  of reference, and it copies and then mutates arrays. Objectives are therefore
  references, and arrays live in a store: address \<open>a\<close> of the store holds the
  \<open>a\<close>-th array that was allocated. A bucket is an immutable value whose
  \<open>objectives\<close> field is the address of its array.
\<close>

type_synonym objref = nat
type_synonym addr = nat
type_synonym heap = "objref list list"

record bucket =
  displayName :: string
  allocationPercentage :: number
  objectives :: addr

record bucketComponent =
  bucket :: bucket
  isEditingEnabled :: "bool option"

text \<open>What one call of \<^verbatim>\<open>onChanged.emit\<close> sends: the original and the new bucket.\<close>

type_synonym changed = "bucket \<times> bucket"

text \<open>The spread \<^verbatim>\<open>[...xs]\<close>: a new array with the elements of the array at \<open>a\<close>.\<close>

definition arrayCopy :: "heap \<Rightarrow> addr \<Rightarrow> heap \<times> addr" where
  "arrayCopy h a = (h @ [h ! a], length h)"

definition arrayPush :: "heap \<Rightarrow> addr \<Rightarrow> objref \<Rightarrow> heap" where
  "arrayPush h a x = h[a := h ! a @ [x]]"

text \<open>
  \<^verbatim>\<open>Array.prototype.findIndex\<close>: the index of the first element that satisfies the
  predicate, or \<open>-1\<close>.
\<close>

fun findIndex :: "('a \<Rightarrow> bool) \<Rightarrow> 'a list \<Rightarrow> int" where
  "findIndex P [] = - 1"
| "findIndex P (x # xs) =
     (if P x then 0 else (let i = findIndex P xs in if i < 0 then - 1 else i + 1))"

text \<open>
  \<^verbatim>\<open>Array.prototype.splice(start, deleteCount)\<close> without inserted items, as the
  language defines it: a negative start counts from the end, both numbers are clamped
  to the array.
\<close>

definition splice :: "int \<Rightarrow> int \<Rightarrow> 'a list \<Rightarrow> 'a list" where
  "splice start deleteCount xs =
     (let len = int (length xs);
          actualStart = (if start < 0 then max (len + start) 0 else min start len);
          actualDeleteCount = min (max deleteCount 0) (len - actualStart)
      in take (nat actualStart) xs @ drop (nat (actualStart + actualDeleteCount)) xs)"

definition arraySplice :: "heap \<Rightarrow> addr \<Rightarrow> int \<Rightarrow> int \<Rightarrow> heap" where
  "arraySplice h a start deleteCount = h[a := splice start deleteCount (h ! a)]"

text \<open>
  The assignment \<^verbatim>\<open>xs[i] = v\<close>. An index inside the array replaces the element; the
  index \<open>length xs\<close> appends; a negative index is no array index at all, the assignment
  then sets an ordinary property of the array object and no element changes. An index
  beyond the length would leave holes in the array, which a list cannot hold: \<open>None\<close>.
\<close>

definition setIndex :: "int \<Rightarrow> 'a \<Rightarrow> 'a list \<Rightarrow> 'a list option" where
  "setIndex i v xs =
     (if i < 0 then Some xs
      else if i < int (length xs) then Some (xs[nat i := v])
      else if i = int (length xs) then Some (xs @ [v])
      else None)"

definition arraySetIndex :: "heap \<Rightarrow> addr \<Rightarrow> int \<Rightarrow> objref \<Rightarrow> heap option" where
  "arraySetIndex h a i v =
     (case setIndex i v (h ! a) of None \<Rightarrow> None | Some ys \<Rightarrow> Some (h[a := ys]))"

text \<open>
  \<open>addObjective\<close> opens a dialog; \<open>dialogResult\<close> is what the dialog delivers when it
  closes: the objective to add, or nothing when it was cancelled. Each operation returns
  the store and the events it emitted. No operation assigns a field of the component.
\<close>

definition addObjective :: "bucketComponent \<Rightarrow> heap \<Rightarrow> objref option \<Rightarrow> heap \<times> changed list" where
  "addObjective c h dialogResult =
     (if isEditingEnabled c \<noteq> Some True then (h, [])
      else
        case dialogResult of
          None \<Rightarrow> (h, [])
        | Some objective \<Rightarrow>
            (let (h1, newObjectives) = arrayCopy h (objectives (bucket c));
                 h2 = arrayPush h1 newObjectives objective;
                 newBucket = (bucket c)\<lparr>objectives := newObjectives\<rparr>
             in (h2, [(bucket c, newBucket)])))"

definition objectiveIndex :: "bucketComponent \<Rightarrow> heap \<Rightarrow> objref \<Rightarrow> int" where
  "objectiveIndex c h objective = findIndex (\<lambda>o'. o' = objective) (h ! objectives (bucket c))"

definition deleteObjective :: "bucketComponent \<Rightarrow> heap \<Rightarrow> objref \<Rightarrow> heap \<times> changed list" where
  "deleteObjective c h objective =
     (let index = objectiveIndex c h objective;
          (h1, newObjectives) = arrayCopy h (objectives (bucket c));
          h2 = arraySplice h1 newObjectives index 1;
          newBucket = (bucket c)\<lparr>objectives := newObjectives\<rparr>
      in (h2, [(bucket c, newBucket)]))"

definition onObjectiveChanged ::
  "bucketComponent \<Rightarrow> heap \<Rightarrow> objref \<Rightarrow> objref \<Rightarrow> (heap \<times> changed list) option" where
  "onObjectiveChanged c h original newObjective =
     (let index = objectiveIndex c h original;
          (h1, newObjectives) = arrayCopy h (objectives (bucket c))
      in case arraySetIndex h1 newObjectives index newObjective of
           None \<Rightarrow> None
         | Some h2 \<Rightarrow>
             (let newBucket = (bucket c)\<lparr>objectives := newObjectives\<rparr>
              in Some (h2, [(bucket c, newBucket)])))"

text \<open>
  \<^verbatim>\<open>bucketResourcesAllocated\<close> and \<^verbatim>\<open>bucketCommittedResourcesAllocated\<close> are imported
  from the bucket module, which is not among the sources; they are parameters.
\<close>

definition resourcesAllocated_bucket :: "(bucket \<Rightarrow> number) \<Rightarrow> bucketComponent \<Rightarrow> number" where
  "resourcesAllocated_bucket bucketResourcesAllocated c = bucketResourcesAllocated (bucket c)"

definition committedResourcesAllocated :: "(bucket \<Rightarrow> number) \<Rightarrow> bucketComponent \<Rightarrow> number" where
  "committedResourcesAllocated bucketCommittedResourcesAllocated c =
     bucketCommittedResourcesAllocated (bucket c)"

definition commitRatio ::
  "(bucket \<Rightarrow> number) \<Rightarrow> (bucket \<Rightarrow> number) \<Rightarrow> bucketComponent \<Rightarrow> number" where
  "commitRatio bucketResourcesAllocated bucketCommittedResourcesAllocated c =
     (let total = resourcesAllocated_bucket bucketResourcesAllocated c
      in if total \<noteq> 0
         then committedResourcesAllocated bucketCommittedResourcesAllocated c / total
         else 0)"

section \<open>Periods and the components that aggregate them\<close>

text \<open>
  \<^verbatim>\<open>Array.prototype.sort\<close> with a comparison function. The language asks for a stable
  sort and fixes the result whenever the comparison function is consistent; insertion
  from the right computes that result. An element goes in front of the first element it
  does not compare greater than.
\<close>

fun insertBy :: "('a \<Rightarrow> 'a \<Rightarrow> number) \<Rightarrow> 'a \<Rightarrow> 'a list \<Rightarrow> 'a list" where
  "insertBy compareFn x [] = [x]"
| "insertBy compareFn x (y # ys) =
     (if compareFn x y \<le> 0 then x # y # ys else y # insertBy compareFn x ys)"

definition arraySort :: "('a \<Rightarrow> 'a \<Rightarrow> number) \<Rightarrow> 'a list \<Rightarrow> 'a list" where
  "arraySort compareFn xs = foldr (insertBy compareFn) xs []"

text \<open>
  A \<^verbatim>\<open>for ... of\<close> loop whose body may return from the enclosing function: the body
  yields \<open>Some r\<close> to return \<open>r\<close>, and \<open>None\<close> to go on with the next element.
\<close>

fun forOf :: "('a \<Rightarrow> 'r option) \<Rightarrow> 'a list \<Rightarrow> 'r option" where
  "forOf body [] = None"
| "forOf body (x # xs) = (case body x of Some r \<Rightarrow> Some r | None \<Rightarrow> forOf body xs)"

record assignment =
  personId :: string
  commitment :: number

record objectiveGroup =
  groupType :: string
  groupName :: string

record objectiveTag =
  name_tag :: string

text \<open>
  The class of immutable objectives is declared in a module that is not among the
  sources. Its method \<^verbatim>\<open>resourcesAllocated()\<close> is a field here: the number the method
  returns for this objective, with no assumption on how it is computed.
\<close>

record immutableObjective =
  name :: string
  groups :: "objectiveGroup list"
  tags :: "objectiveTag list"
  assignments :: "assignment list"
  resourcesAllocated :: number

record immutableBucket =
  objectives_imm :: "immutableObjective list"

record immutablePeriod =
  buckets :: "immutableBucket list"

subsection \<open>Assignments by person\<close>

record assignmentsByPersonComponent =
  period_byPerson :: immutablePeriod

record objectiveAssignment =
  objective :: immutableObjective
  assignment :: assignment

definition hasAssignments :: "assignmentsByPersonComponent \<Rightarrow> person \<Rightarrow> bool" where
  "hasAssignments c p =
     (case forOf (\<lambda>b.
             forOf (\<lambda>ob.
               forOf (\<lambda>a. if personId a = id_person p then Some True else None)
                 (assignments ob))
               (objectives_imm b))
             (buckets (period_byPerson c))
      of Some r \<Rightarrow> r | None \<Rightarrow> False)"

definition assignmentsFor ::
  "assignmentsByPersonComponent \<Rightarrow> person \<Rightarrow> objectiveAssignment list" where
  "assignmentsFor c p =
     (let result =
            fold (\<lambda>b result.
              fold (\<lambda>ob result.
                fold (\<lambda>a result. result @ [\<lparr>objective = ob, assignment = a\<rparr>])
                  (filter (\<lambda>a. personId a = id_person p) (assignments ob)) result)
                (objectives_imm b) result)
              (buckets (period_byPerson c)) []
      in arraySort (\<lambda>a b. commitment (assignment b) - commitment (assignment a)) result)"

subsection \<open>Assignments by group and by tag\<close>

text \<open>
  \<^verbatim>\<open>totalResourcesAllocated\<close> is imported from the module of objectives, which is not
  among the sources, and \<^verbatim>\<open>localeCompare\<close> is the collation of the runtime: both are
  parameters of the functions that use them.
\<close>

record assignmentsClassifyComponent =
  period :: immutablePeriod
  groupType_component :: "string option"

definition totalAssignedResources ::
  "(immutableObjective list \<Rightarrow> number) \<Rightarrow> immutableObjective list \<Rightarrow> number" where
  "totalAssignedResources totalResourcesAllocated obs = totalResourcesAllocated obs"

text \<open>
  Both aggregations file an objective under a key the same way: push it on the array the
  map holds for the key, or set the key to a new array with the objective alone. The
  array of a key is reached through the map only, so pushing on it is storing the
  longer array under the key, which keeps the key's position.
\<close>

definition pushOrSet ::
  "string \<Rightarrow> immutableObjective \<Rightarrow> (string, immutableObjective list) jsmap
    \<Rightarrow> (string, immutableObjective list) jsmap" where
  "pushOrSet key ob m =
     (if mapHas m key
      then (case mapGet m key of Some obs \<Rightarrow> mapSet key (obs @ [ob]) m | None \<Rightarrow> m)
      else mapSet key [ob] m)"

definition objectivesByGroup ::
  "(string \<Rightarrow> string \<Rightarrow> number) \<Rightarrow> (immutableObjective list \<Rightarrow> number)
    \<Rightarrow> assignmentsClassifyComponent \<Rightarrow> (string \<times> immutableObjective list) list" where
  "objectivesByGroup localeCompare totalResourcesAllocated c =
     (let obsByGroup =
            fold (\<lambda>b m.
              fold (\<lambda>ob m.
                let mgs = filter (\<lambda>g. Some (groupType g) = groupType_component c) (groups ob)
                in case mgs of
                     [] \<Rightarrow> m
                   | g # _ \<Rightarrow> pushOrSet (groupName g) ob m)
                (objectives_imm b) m)
              (buckets (period c)) [];
          sortedObs =
            map (\<lambda>(g, obs).
                  (g, arraySort (\<lambda>o1 o2. resourcesAllocated o2 - resourcesAllocated o1) obs))
              obsByGroup
      in arraySort
           (\<lambda>(g1, obs1) (g2, obs2).
              let resources1 = totalAssignedResources totalResourcesAllocated obs1;
                  resources2 = totalAssignedResources totalResourcesAllocated obs2
              in if resources2 - resources1 \<noteq> 0 then resources2 - resources1
                 else localeCompare g1 g2)
           sortedObs)"

definition objectivesByTag ::
  "(string \<Rightarrow> string \<Rightarrow> number) \<Rightarrow> assignmentsClassifyComponent
    \<Rightarrow> (string \<times> immutableObjective list) list" where
  "objectivesByTag localeCompare c =
     (let obsByTag =
            fold (\<lambda>b m.
              fold (\<lambda>ob m.
                fold (\<lambda>t m. pushOrSet (name_tag t) ob m) (tags ob) m)
                (objectives_imm b) m)
              (buckets (period c)) [];
          sortedObs =
            map (\<lambda>(g, obs).
                  (g, arraySort (\<lambda>o1 o2. resourcesAllocated o2 - resourcesAllocated o1) obs))
              obsByTag
      in arraySort (\<lambda>(g1, _) (g2, _). localeCompare g1 g2) sortedObs)"

text \<open>
  Filing a list of objectives, each under its key, one after the other. Both aggregations
  are instances of it (\<open>objectivesByGroup_as_pushAll\<close>, \<open>objectivesByTag_as_pushAll\<close>).
\<close>

definition pushAll ::
  "(string \<times> immutableObjective) list \<Rightarrow> (string, immutableObjective list) jsmap
    \<Rightarrow> (string, immutableObjective list) jsmap" where
  "pushAll kvs m = fold (\<lambda>(k, v) m. pushOrSet k v m) kvs m"

section \<open>Storage service\<close>

text \<open>
  The storage service only builds HTTP requests and hands them to the HTTP client. A
  method of the service is modelled by the request it issues. The client offers more
  verbs than the service uses. Of a team and of a period the service reads the
  \<^verbatim>\<open>id\<close> only; the object itself travels as the body of the request.
\<close>

datatype httpVerb = DELETE | GET | HEAD | OPTIONS | PATCH | POST | PUT

record team =
  id_team :: string

record period =
  id_period :: string

datatype requestBody = TeamBody team | PeriodBody period

record httpRequest =
  verb :: httpVerb
  url :: string
  payload :: "requestBody option"
  contentType :: "string option"

definition getTeams :: httpRequest where
  "getTeams = \<lparr>verb = GET, url = ''/api/team/'', payload = None, contentType = None\<rparr>"

definition getTeam :: "string \<Rightarrow> httpRequest" where
  "getTeam teamId = \<lparr>verb = GET, url = ''/api/team/'' @ teamId, payload = None, contentType = None\<rparr>"

definition addTeam :: "team \<Rightarrow> httpRequest" where
  "addTeam t =
     \<lparr>verb = POST, url = ''/api/team/'', payload = Some (TeamBody t),
       contentType = Some ''application/json''\<rparr>"

definition updateTeam :: "team \<Rightarrow> httpRequest" where
  "updateTeam t =
     \<lparr>verb = PUT, url = ''/api/team/'' @ id_team t, payload = Some (TeamBody t),
       contentType = Some ''application/json''\<rparr>"

definition getPeriods :: "string \<Rightarrow> httpRequest" where
  "getPeriods teamId =
     \<lparr>verb = GET, url = ''/api/period/'' @ teamId @ ''/'', payload = None, contentType = None\<rparr>"

definition getPeriod :: "string \<Rightarrow> string \<Rightarrow> httpRequest" where
  "getPeriod teamId periodId =
     \<lparr>verb = GET, url = ''/api/period/'' @ teamId @ ''/'' @ periodId, payload = None,
       contentType = None\<rparr>"

definition addPeriod :: "string \<Rightarrow> period \<Rightarrow> httpRequest" where
  "addPeriod teamId per =
     \<lparr>verb = POST, url = ''/api/period/'' @ teamId @ ''/'', payload = Some (PeriodBody per),
       contentType = Some ''application/json''\<rparr>"

definition updatePeriod :: "string \<Rightarrow> period \<Rightarrow> httpRequest" where
  "updatePeriod teamId per =
     \<lparr>verb = PUT, url = ''/api/period/'' @ teamId @ ''/'' @ id_period per,
       payload = Some (PeriodBody per), contentType = Some ''application/json''\<rparr>"

text \<open>
  The calls a client of the service can make: one constructor for each method of the
  class, with the method's arguments.
\<close>

datatype storageCall =
    GetTeams
  | GetTeam string
  | AddTeam team
  | UpdateTeam team
  | GetPeriods string
  | GetPeriod string string
  | AddPeriod string period
  | UpdatePeriod string period

fun request :: "storageCall \<Rightarrow> httpRequest" where
  "request GetTeams = getTeams"
| "request (GetTeam teamId) = getTeam teamId"
| "request (AddTeam t) = addTeam t"
| "request (UpdateTeam t) = updateTeam t"
| "request (GetPeriods teamId) = getPeriods teamId"
| "request (GetPeriod teamId periodId) = getPeriod teamId periodId"
| "request (AddPeriod teamId per) = addPeriod teamId per"
| "request (UpdatePeriod teamId per) = updatePeriod teamId per"

section \<open>Derived statistics of the people component\<close>

text \<open>
  C4. For every person, \<open>personAllocated\<close> is the entry for the person's id in
  \<open>peopleAllocations\<close>, or \<open>0\<close> when the id is absent from that map;
  \<open>personUnallocated\<close> is the person's availability minus \<open>personAllocated\<close>; and
  \<open>isPersonOverallocated\<close> holds exactly when \<open>personAllocated\<close> is strictly greater
  than the person's availability.
\<close>

theorem people_allocation_statistics:
  "(id_person p \<notin> dom (peopleAllocations c) \<longrightarrow> personAllocated c p = 0)
   \<and> (\<forall>v. peopleAllocations c (id_person p) = Some v \<longrightarrow> personAllocated c p = v)
   \<and> personUnallocated c p = availability p - personAllocated c p
   \<and> (isPersonOverallocated c p \<longleftrightarrow> availability p < personAllocated c p)"
  by (auto simp: personAllocated_def personUnallocated_def isPersonOverallocated_def
           split: option.splits)

theorem people_allocation_statistics_witness:
  "(let c = \<lparr>people = [], peopleAllocations = [''ann'' \<mapsto> 7],
              peopleCommittedAllocations = Map.empty, peopleAssignmentCounts = Map.empty\<rparr>;
        ann = \<lparr>id_person = ''ann'', displayName_person = ''Ann'', availability = 5\<rparr>;
        bob = \<lparr>id_person = ''bob'', displayName_person = ''Bob'', availability = 5\<rparr>
    in id_person bob \<notin> dom (peopleAllocations c) \<and> personAllocated c bob = 0
       \<and> peopleAllocations c (id_person ann) = Some 7 \<and> personAllocated c ann = 7
       \<and> personUnallocated c ann = - 2 \<and> isPersonOverallocated c ann
       \<and> personUnallocated c bob = 5 \<and> \<not> isPersonOverallocated c bob)"
  using people_allocation_statistics
    [of "\<lparr>id_person = ''bob'', displayName_person = ''Bob'', availability = 5\<rparr>"
        "\<lparr>people = [], peopleAllocations = [''ann'' \<mapsto> 7],
          peopleCommittedAllocations = Map.empty, peopleAssignmentCounts = Map.empty\<rparr>"]
    people_allocation_statistics
    [of "\<lparr>id_person = ''ann'', displayName_person = ''Ann'', availability = 5\<rparr>"
        "\<lparr>people = [], peopleAllocations = [''ann'' \<mapsto> 7],
          peopleCommittedAllocations = Map.empty, peopleAssignmentCounts = Map.empty\<rparr>"]
  by (simp add: Let_def)

text \<open>
  C3. Each commitment ratio is the committed allocation divided by the total allocation,
  and \<open>0\<close> when the total allocation is \<open>0\<close>: \<open>personCommitFraction\<close> is \<open>0\<close> when
  \<open>personAllocated\<close> is \<open>0\<close>, and otherwise the person's committed allocation (\<open>0\<close> when
  the person is absent from \<open>peopleCommittedAllocations\<close>) divided by
  \<open>personAllocated\<close>; the bucket's \<open>commitRatio\<close> is \<open>0\<close> when its allocated resources
  are \<open>0\<close>, and otherwise its committed resources divided by its allocated resources.
\<close>

theorem commit_ratios:
  "(personAllocated c p = 0 \<longrightarrow> personCommitFraction c p = 0)
   \<and> (personAllocated c p \<noteq> 0 \<longrightarrow>
        personCommitFraction c p =
          (case peopleCommittedAllocations c (id_person p) of Some v \<Rightarrow> v | None \<Rightarrow> 0)
            / personAllocated c p)
   \<and> (resourcesAllocated_bucket bra bc = 0 \<longrightarrow> commitRatio bra bcra bc = 0)
   \<and> (resourcesAllocated_bucket bra bc \<noteq> 0 \<longrightarrow>
        commitRatio bra bcra bc =
          committedResourcesAllocated bcra bc / resourcesAllocated_bucket bra bc)"
  by (simp add: personCommitFraction_def commitRatio_def Let_def)

theorem commit_ratios_witness:
  "(let c = \<lparr>people = [], peopleAllocations = [''ann'' \<mapsto> 8],
              peopleCommittedAllocations = [''ann'' \<mapsto> 6], peopleAssignmentCounts = Map.empty\<rparr>;
        ann = \<lparr>id_person = ''ann'', displayName_person = ''Ann'', availability = 10\<rparr>;
        bob = \<lparr>id_person = ''bob'', displayName_person = ''Bob'', availability = 10\<rparr>;
        full = \<lparr>bucket = \<lparr>displayName = ''Full'', allocationPercentage = 60, objectives = 0\<rparr>,
                 isEditingEnabled = None\<rparr>;
        idle = \<lparr>bucket = \<lparr>displayName = ''Idle'', allocationPercentage = 40, objectives = 1\<rparr>,
                 isEditingEnabled = None\<rparr>;
        bra = (\<lambda>b. if displayName b = ''Full'' then 12 else 0);
        bcra = (\<lambda>b. if displayName b = ''Full'' then 3 else 0)
    in personAllocated c bob = 0 \<and> personCommitFraction c bob = 0
       \<and> personAllocated c ann \<noteq> 0 \<and> personCommitFraction c ann = 3 / 4
       \<and> resourcesAllocated_bucket bra idle = 0 \<and> commitRatio bra bcra idle = 0
       \<and> resourcesAllocated_bucket bra full \<noteq> 0 \<and> commitRatio bra bcra full = 1 / 4)"
  using commit_ratios
    [of "\<lparr>people = [], peopleAllocations = [''ann'' \<mapsto> 8],
          peopleCommittedAllocations = [''ann'' \<mapsto> 6], peopleAssignmentCounts = Map.empty\<rparr>"
        "\<lparr>id_person = ''bob'', displayName_person = ''Bob'', availability = 10\<rparr>"
        "\<lambda>b. if displayName b = ''Full'' then 12 else 0"
        "\<lparr>bucket = \<lparr>displayName = ''Idle'', allocationPercentage = 40, objectives = 1\<rparr>,
          isEditingEnabled = None\<rparr>"
        "\<lambda>b. if displayName b = ''Full'' then 3 else 0"]
    commit_ratios
    [of "\<lparr>people = [], peopleAllocations = [''ann'' \<mapsto> 8],
          peopleCommittedAllocations = [''ann'' \<mapsto> 6], peopleAssignmentCounts = Map.empty\<rparr>"
        "\<lparr>id_person = ''ann'', displayName_person = ''Ann'', availability = 10\<rparr>"
        "\<lambda>b. if displayName b = ''Full'' then 12 else 0"
        "\<lparr>bucket = \<lparr>displayName = ''Full'', allocationPercentage = 60, objectives = 0\<rparr>,
          isEditingEnabled = None\<rparr>"
        "\<lambda>b. if displayName b = ''Full'' then 3 else 0"]
  by (simp add: Let_def personAllocated_def resourcesAllocated_bucket_def
        committedResourcesAllocated_def)

section \<open>Editing a bucket\<close>

lemma findIndex_none: "(\<forall>x\<in>set xs. \<not> P x) \<Longrightarrow> findIndex P xs = - 1"
  by (induction xs) auto

lemma findIndex_first: "(\<forall>x\<in>set pre. \<not> P x) \<Longrightarrow> P y \<Longrightarrow> findIndex P (pre @ y # post) = int (length pre)"
  by (induction pre) (auto simp: Let_def)

lemma findIndex_range: "- 1 \<le> findIndex P xs \<and> findIndex P xs < int (length xs)"
  by (induction xs) (auto simp: Let_def)

lemma splice_one_at: "splice (int (length pre)) 1 (pre @ y # post) = pre @ post"
proof -
  have "nat (int (length pre) + 1) = Suc (length pre)" by simp
  then show ?thesis by (simp add: splice_def Let_def)
qed

lemma splice_minus_one: "splice (- 1) 1 xs = butlast xs"
proof (cases xs rule: rev_cases)
  case Nil
  then show ?thesis by (simp add: splice_def)
next
  case (snoc ys y)
  then show ?thesis by (simp add: splice_def Let_def)
qed

lemma setIndex_at: "setIndex (int (length pre)) v (pre @ y # post) = Some (pre @ v # post)"
  by (simp add: setIndex_def)

lemma setIndex_minus_one: "setIndex (- 1) v xs = Some xs"
  by (simp add: setIndex_def)

lemma addObjective_value:
  "isEditingEnabled c = Some True \<Longrightarrow>
   addObjective c h (Some obj) =
     (h @ [h ! objectives (bucket c) @ [obj]], [(bucket c, (bucket c)\<lparr>objectives := length h\<rparr>)])"
  by (simp add: addObjective_def arrayCopy_def arrayPush_def)

lemma deleteObjective_value:
  "deleteObjective c h obj =
     (h @ [splice (objectiveIndex c h obj) 1 (h ! objectives (bucket c))],
      [(bucket c, (bucket c)\<lparr>objectives := length h\<rparr>)])"
  by (simp add: deleteObjective_def arrayCopy_def arraySplice_def Let_def)

lemma onObjectiveChanged_value:
  "onObjectiveChanged c h orig new =
     (case setIndex (objectiveIndex c h orig) new (h ! objectives (bucket c)) of
        None \<Rightarrow> None
      | Some ys \<Rightarrow> Some (h @ [ys], [(bucket c, (bucket c)\<lparr>objectives := length h\<rparr>)]))"
  by (simp add: onObjectiveChanged_def arrayCopy_def arraySetIndex_def Let_def split: option.splits)

text \<open>
  \<open>findIndex\<close> stays below the length of the array, so the assignment in
  \<open>onObjectiveChanged\<close> never leaves a hole: the operation always returns.
\<close>

lemma onObjectiveChanged_returns: "onObjectiveChanged c h orig new \<noteq> None"
  using findIndex_range [of "\<lambda>o'. o' = orig" "h ! objectives (bucket c)"]
  by (auto simp: onObjectiveChanged_value objectiveIndex_def setIndex_def split: option.splits)

lemma addObjective_cases:
  "addObjective c h dialogResult = (h, [])
   \<or> (\<exists>x. addObjective c h dialogResult
          = (h @ [h ! objectives (bucket c) @ [x]],
             [(bucket c, (bucket c)\<lparr>objectives := length h\<rparr>)]))"
proof (cases "isEditingEnabled c = Some True")
  case True
  then show ?thesis
    by (cases dialogResult) (simp_all add: addObjective_value, simp add: addObjective_def)
next
  case False
  then show ?thesis by (simp add: addObjective_def)
qed

lemma onObjectiveChanged_cases:
  "\<exists>ys. onObjectiveChanged c h orig new
     = Some (h @ [ys], [(bucket c, (bucket c)\<lparr>objectives := length h\<rparr>)])"
  using onObjectiveChanged_returns [of c h orig new]
  by (auto simp: onObjectiveChanged_value split: option.splits)

text \<open>
  C5. Each of \<open>addObjective\<close>, \<open>deleteObjective\<close> and \<open>onObjectiveChanged\<close>, whatever it
  is called with, leaves every array that already exists as it was, so the original
  bucket keeps its value; and every pair it emits is the original bucket and a new
  bucket with the same display name and allocation percentage, whose objectives are a
  freshly allocated array. \<open>addObjective\<close> emits nothing unless editing is enabled and
  the dialog delivers an objective; then it emits one pair, and the new bucket has the
  original objectives with the dialog's objective appended. \<open>deleteObjective\<close> and
  \<open>onObjectiveChanged\<close> always emit one pair. For an objective that is in the bucket,
  \<open>deleteObjective\<close> emits the objectives without the first occurrence of that objective,
  and \<open>onObjectiveChanged\<close> emits the objectives with the first occurrence replaced by
  the new objective, at the same position.
\<close>

theorem bucket_edits:
  assumes "objectives (bucket c) < length h"
  shows
    "(let b = bucket c; objs = h ! objectives b; nb = b\<lparr>objectives := length h\<rparr>
      in (\<forall>r \<in> {addObjective c h dialogResult, deleteObjective c h obj}
                \<union> set_option (onObjectiveChanged c h obj newObjective).
            take (length h) (fst r) = h
            \<and> fst r ! objectives b = objs
            \<and> (\<forall>(b', nb') \<in> set (snd r).
                  b' = b
                  \<and> displayName nb' = displayName b
                  \<and> allocationPercentage nb' = allocationPercentage b
                  \<and> objectives nb' = length h
                  \<and> objectives nb' < length (fst r)))
         \<and> (isEditingEnabled c \<noteq> Some True \<or> dialogResult = None \<longrightarrow>
               addObjective c h dialogResult = (h, []))
         \<and> (isEditingEnabled c = Some True \<longrightarrow>
               addObjective c h (Some obj) = (h @ [objs @ [obj]], [(b, nb)]))
         \<and> (\<exists>ys. deleteObjective c h obj = (h @ [ys], [(b, nb)]))
         \<and> (\<exists>ys. onObjectiveChanged c h obj newObjective = Some (h @ [ys], [(b, nb)]))
         \<and> (\<forall>pre post. objs = pre @ obj # post \<and> obj \<notin> set pre \<longrightarrow>
               deleteObjective c h obj = (h @ [pre @ post], [(b, nb)]))
         \<and> (\<forall>pre post. objs = pre @ obj # post \<and> obj \<notin> set pre \<longrightarrow>
               onObjectiveChanged c h obj newObjective
                 = Some (h @ [pre @ newObjective # post], [(b, nb)])))"
proof -
  let ?b = "bucket c"
  let ?objs = "h ! objectives ?b"
  let ?nb = "?b\<lparr>objectives := length h\<rparr>"
  define ok where "ok = (\<lambda>r :: heap \<times> changed list.
      take (length h) (fst r) = h
      \<and> fst r ! objectives ?b = ?objs
      \<and> (\<forall>(b', nb') \<in> set (snd r).
            b' = ?b
            \<and> displayName nb' = displayName ?b
            \<and> allocationPercentage nb' = allocationPercentage ?b
            \<and> objectives nb' = length h
            \<and> objectives nb' < length (fst r)))"
  have unchanged: "ok (h, [])"
    by (simp add: ok_def)
  have fresh: "ok (h @ [ys], [(?b, ?nb)])" for ys
    using assms by (simp add: ok_def nth_append)
  have add: "ok (addObjective c h dialogResult)"
  proof -
    from addObjective_cases [of c h dialogResult] consider
        (none) "addObjective c h dialogResult = (h, [])"
      | (one) x where "addObjective c h dialogResult = (h @ [?objs @ [x]], [(?b, ?nb)])"
      by blast
    then show ?thesis
    proof cases
      case none
      show ?thesis unfolding none by (rule unchanged)
    next
      case one
      show ?thesis unfolding one by (rule fresh)
    qed
  qed
  have del_shape: "\<exists>ys. deleteObjective c h obj = (h @ [ys], [(?b, ?nb)])"
    by (simp add: deleteObjective_value)
  have del: "ok (deleteObjective c h obj)"
    unfolding deleteObjective_value by (rule fresh)
  have chg_shape: "\<exists>ys. onObjectiveChanged c h obj newObjective = Some (h @ [ys], [(?b, ?nb)])"
    by (rule onObjectiveChanged_cases)
  have chg: "ok r" if "r \<in> set_option (onObjectiveChanged c h obj newObjective)" for r
  proof -
    from chg_shape obtain ys where
      "onObjectiveChanged c h obj newObjective = Some (h @ [ys], [(?b, ?nb)])"
      by blast
    with that have r: "r = (h @ [ys], [(?b, ?nb)])" by simp
    show ?thesis unfolding r by (rule fresh)
  qed
  have "\<forall>r \<in> {addObjective c h dialogResult, deleteObjective c h obj}
      \<union> set_option (onObjectiveChanged c h obj newObjective). ok r"
  proof
    fix r
    assume "r \<in> {addObjective c h dialogResult, deleteObjective c h obj}
      \<union> set_option (onObjectiveChanged c h obj newObjective)"
    then consider "r = addObjective c h dialogResult" | "r = deleteObjective c h obj"
      | "r \<in> set_option (onObjectiveChanged c h obj newObjective)"
      by blast
    then show "ok r"
    proof cases
      case 1
      show ?thesis unfolding 1 by (rule add)
    next
      case 2
      show ?thesis unfolding 2 by (rule del)
    next
      case 3
      then show ?thesis by (rule chg)
    qed
  qed
  then have frame: "\<forall>r \<in> {addObjective c h dialogResult, deleteObjective c h obj}
      \<union> set_option (onObjectiveChanged c h obj newObjective).
        take (length h) (fst r) = h
        \<and> fst r ! objectives ?b = ?objs
        \<and> (\<forall>(b', nb') \<in> set (snd r).
              b' = ?b
              \<and> displayName nb' = displayName ?b
              \<and> allocationPercentage nb' = allocationPercentage ?b
              \<and> objectives nb' = length h
              \<and> objectives nb' < length (fst r))"
    unfolding ok_def .
  have skip: "isEditingEnabled c \<noteq> Some True \<or> dialogResult = None \<longrightarrow>
      addObjective c h dialogResult = (h, [])"
    by (auto simp: addObjective_def)
  have push: "isEditingEnabled c = Some True \<longrightarrow>
      addObjective c h (Some obj) = (h @ [?objs @ [obj]], [(?b, ?nb)])"
    by (simp add: addObjective_value)
  have idx: "objectiveIndex c h obj = int (length pre)"
    if "?objs = pre @ obj # post" "obj \<notin> set pre" for pre post
    using that findIndex_first [of pre "\<lambda>o'. o' = obj" obj post]
    by (auto simp: objectiveIndex_def)
  have del_member: "\<forall>pre post. ?objs = pre @ obj # post \<and> obj \<notin> set pre \<longrightarrow>
      deleteObjective c h obj = (h @ [pre @ post], [(?b, ?nb)])"
    using idx by (simp add: deleteObjective_value splice_one_at)
  have chg_member: "\<forall>pre post. ?objs = pre @ obj # post \<and> obj \<notin> set pre \<longrightarrow>
      onObjectiveChanged c h obj newObjective
        = Some (h @ [pre @ newObjective # post], [(?b, ?nb)])"
    using idx by (simp add: onObjectiveChanged_value setIndex_at)
  show ?thesis
    unfolding Let_def
    by (rule conjI [OF frame conjI [OF skip conjI [OF push conjI [OF del_shape
          conjI [OF chg_shape conjI [OF del_member chg_member]]]]]])
qed

theorem bucket_edits_witness:
  "objectives (bucket \<lparr>bucket = \<lparr>displayName = ''B'', allocationPercentage = 50, objectives = 0\<rparr>,
       isEditingEnabled = Some True\<rparr>) < length [[1, 2, 3 :: objref]]
   \<and> addObjective
       \<lparr>bucket = \<lparr>displayName = ''B'', allocationPercentage = 50, objectives = 0\<rparr>,
         isEditingEnabled = Some True\<rparr> [[1, 2, 3]] (Some 2)
     = ([[1, 2, 3], [1, 2, 3, 2]],
        [(\<lparr>displayName = ''B'', allocationPercentage = 50, objectives = 0\<rparr>,
          \<lparr>displayName = ''B'', allocationPercentage = 50, objectives = 1\<rparr>)])
   \<and> deleteObjective
       \<lparr>bucket = \<lparr>displayName = ''B'', allocationPercentage = 50, objectives = 0\<rparr>,
         isEditingEnabled = Some True\<rparr> [[1, 2, 3]] 2
     = ([[1, 2, 3], [1, 3]],
        [(\<lparr>displayName = ''B'', allocationPercentage = 50, objectives = 0\<rparr>,
          \<lparr>displayName = ''B'', allocationPercentage = 50, objectives = 1\<rparr>)])
   \<and> onObjectiveChanged
       \<lparr>bucket = \<lparr>displayName = ''B'', allocationPercentage = 50, objectives = 0\<rparr>,
         isEditingEnabled = Some True\<rparr> [[1, 2, 3]] 2 8
     = Some ([[1, 2, 3], [1, 8, 3]],
        [(\<lparr>displayName = ''B'', allocationPercentage = 50, objectives = 0\<rparr>,
          \<lparr>displayName = ''B'', allocationPercentage = 50, objectives = 1\<rparr>)])
   \<and> take (length [[1, 2, 3 :: objref]])
        (fst (deleteObjective
          \<lparr>bucket = \<lparr>displayName = ''B'', allocationPercentage = 50, objectives = 0\<rparr>,
            isEditingEnabled = Some True\<rparr> [[1, 2, 3]] 2)) = [[1, 2, 3]]"
proof -
  let ?c = "\<lparr>bucket = \<lparr>displayName = ''B'', allocationPercentage = 50, objectives = 0\<rparr>,
             isEditingEnabled = Some True\<rparr>"
  let ?h = "[[1, 2, 3 :: objref]]"
  have wf: "objectives (bucket ?c) < length ?h"
    by simp
  note t = bucket_edits [OF wf, of None 2 8, unfolded Let_def]
  have split: "?h ! objectives (bucket ?c) = [1] @ 2 # [3] \<and> (2::objref) \<notin> set [1]"
    by simp
  from t [THEN conjunct1] have
    "take (length ?h) (fst (deleteObjective ?c ?h 2)) = ?h"
    by blast
  then have frame: "take (length ?h) (fst (deleteObjective ?c ?h 2)) = [[1, 2, 3]]" .
  from t [THEN conjunct2, THEN conjunct2, THEN conjunct1]
  have add: "addObjective ?c ?h (Some 2)
      = (?h @ [[1, 2, 3] @ [2]], [(bucket ?c, (bucket ?c)\<lparr>objectives := 1\<rparr>)])"
    by simp
  from t [THEN conjunct2, THEN conjunct2, THEN conjunct2, THEN conjunct2, THEN conjunct2,
      THEN conjunct1, rule_format, OF split]
  have del: "deleteObjective ?c ?h 2
      = (?h @ [[1] @ [3]], [(bucket ?c, (bucket ?c)\<lparr>objectives := 1\<rparr>)])"
    by simp
  from t [THEN conjunct2, THEN conjunct2, THEN conjunct2, THEN conjunct2, THEN conjunct2,
      THEN conjunct2, rule_format, OF split]
  have chg: "onObjectiveChanged ?c ?h 2 8
      = Some (?h @ [[1] @ 8 # [3]], [(bucket ?c, (bucket ?c)\<lparr>objectives := 1\<rparr>)])"
    by simp
  show ?thesis
    using wf add del chg frame by simp
qed

text \<open>
  Stated for every call, the property does not hold. With editing disabled
  \<open>addObjective\<close> emits nothing. On a bucket without objectives \<open>deleteObjective\<close> emits a bucket from which
  no objective was removed. For an original that is not in the bucket,
  \<open>onObjectiveChanged\<close> emits the objectives as they were, without the new objective.
\<close>

theorem bucket_edits_counterexample:
  "addObjective
     \<lparr>bucket = \<lparr>displayName = ''B'', allocationPercentage = 50, objectives = 0\<rparr>,
       isEditingEnabled = Some False\<rparr> [[1, 2]] (Some 9) = ([[1, 2]], [])
   \<and> deleteObjective
       \<lparr>bucket = \<lparr>displayName = ''B'', allocationPercentage = 50, objectives = 0\<rparr>,
         isEditingEnabled = Some True\<rparr> [[]] 7
     = ([[], []],
        [(\<lparr>displayName = ''B'', allocationPercentage = 50, objectives = 0\<rparr>,
          \<lparr>displayName = ''B'', allocationPercentage = 50, objectives = 1\<rparr>)])
   \<and> length ([[], []] ! 1 :: objref list) = length ([[]] ! 0 :: objref list)
   \<and> onObjectiveChanged
       \<lparr>bucket = \<lparr>displayName = ''B'', allocationPercentage = 50, objectives = 0\<rparr>,
         isEditingEnabled = Some True\<rparr> [[1, 2]] 3 4
     = Some ([[1, 2], [1, 2]],
        [(\<lparr>displayName = ''B'', allocationPercentage = 50, objectives = 0\<rparr>,
          \<lparr>displayName = ''B'', allocationPercentage = 50, objectives = 1\<rparr>)])
   \<and> (4::objref) \<notin> set ([[1, 2], [1, 2]] ! 1)"
  by (simp add: addObjective_def deleteObjective_value onObjectiveChanged_value
        objectiveIndex_def splice_def setIndex_def)

text \<open>
  C9. When \<open>deleteObjective\<close> is called with an objective that is not in the bucket's
  list, \<open>objectiveIndex\<close> is \<open>-1\<close> and the emitted bucket's objectives are the original
  ones without the last element, when there is one; for a bucket without objectives the
  emitted list is empty as well.
\<close>

theorem deleteObjective_absent:
  assumes "obj \<notin> set (h ! objectives (bucket c))"
  shows "objectiveIndex c h obj = - 1
    \<and> deleteObjective c h obj
        = (h @ [butlast (h ! objectives (bucket c))],
           [(bucket c, (bucket c)\<lparr>objectives := length h\<rparr>)])
    \<and> (h ! objectives (bucket c) \<noteq> [] \<longrightarrow>
         h ! objectives (bucket c)
           = butlast (h ! objectives (bucket c)) @ [last (h ! objectives (bucket c))])
    \<and> (h ! objectives (bucket c) = [] \<longrightarrow> butlast (h ! objectives (bucket c)) = [])"
proof -
  have idx: "objectiveIndex c h obj = - 1"
    using assms findIndex_none [of "h ! objectives (bucket c)" "\<lambda>o'. o' = obj"]
    by (auto simp: objectiveIndex_def)
  then show ?thesis
    by (simp add: deleteObjective_value splice_minus_one)
qed

theorem deleteObjective_absent_witness:
  "(7::objref) \<notin> set ([[1, 2, 3]] ! objectives (bucket
       \<lparr>bucket = \<lparr>displayName = ''B'', allocationPercentage = 50, objectives = 0\<rparr>,
         isEditingEnabled = Some True\<rparr>))
   \<and> objectiveIndex
       \<lparr>bucket = \<lparr>displayName = ''B'', allocationPercentage = 50, objectives = 0\<rparr>,
         isEditingEnabled = Some True\<rparr> [[1, 2, 3]] 7 = - 1
   \<and> deleteObjective
       \<lparr>bucket = \<lparr>displayName = ''B'', allocationPercentage = 50, objectives = 0\<rparr>,
         isEditingEnabled = Some True\<rparr> [[1, 2, 3]] 7
     = ([[1, 2, 3], [1, 2]],
        [(\<lparr>displayName = ''B'', allocationPercentage = 50, objectives = 0\<rparr>,
          \<lparr>displayName = ''B'', allocationPercentage = 50, objectives = 1\<rparr>)])"
proof -
  let ?c = "\<lparr>bucket = \<lparr>displayName = ''B'', allocationPercentage = 50, objectives = 0\<rparr>,
             isEditingEnabled = Some True\<rparr>"
  have absent: "(7::objref) \<notin> set ([[1, 2, 3]] ! objectives (bucket ?c))"
    by simp
  from deleteObjective_absent [OF absent] absent show ?thesis
    by simp
qed

text \<open>
  On a bucket without objectives there is no last element to remove: the emitted
  bucket's objectives equal the original's.
\<close>

theorem deleteObjective_absent_counterexample:
  "(7::objref) \<notin> set ([[]] ! objectives (bucket
       \<lparr>bucket = \<lparr>displayName = ''B'', allocationPercentage = 50, objectives = 0\<rparr>,
         isEditingEnabled = Some True\<rparr>))
   \<and> deleteObjective
       \<lparr>bucket = \<lparr>displayName = ''B'', allocationPercentage = 50, objectives = 0\<rparr>,
         isEditingEnabled = Some True\<rparr> [[]] 7
     = ([[], []],
        [(\<lparr>displayName = ''B'', allocationPercentage = 50, objectives = 0\<rparr>,
          \<lparr>displayName = ''B'', allocationPercentage = 50, objectives = 1\<rparr>)])
   \<and> ([[], []] ! 1 :: objref list) = [[]] ! 0"
  by (simp add: deleteObjective_value objectiveIndex_def splice_def)

section \<open>Sorting, loops and the assignments of a person\<close>

lemma mset_insertBy: "mset (insertBy cmp x xs) = add_mset x (mset xs)"
  by (induction xs) auto

lemma mset_arraySort: "mset (arraySort cmp xs) = mset xs"
  by (induction xs) (auto simp: arraySort_def mset_insertBy)

lemma set_insertBy: "set (insertBy cmp x xs) = insert x (set xs)"
  by (induction xs) auto

lemma set_arraySort: "set (arraySort cmp xs) = set xs"
  by (induction xs) (auto simp: arraySort_def set_insertBy)

lemma arraySort_Nil_iff: "arraySort cmp xs = [] \<longleftrightarrow> xs = []"
  using mset_arraySort [of cmp xs] by (metis mset_zero_iff)

lemma sorted_wrt_insertBy:
  assumes total: "\<And>a b. le a b \<or> le b a"
    and trans: "\<And>a b c. le a b \<Longrightarrow> le b c \<Longrightarrow> le a c"
    and cmp: "\<And>a b. cmp a b \<le> 0 \<longleftrightarrow> le a b"
  shows "sorted_wrt le xs \<Longrightarrow> sorted_wrt le (insertBy cmp x xs)"
proof (induction xs)
  case Nil
  then show ?case by simp
next
  case (Cons y ys)
  show ?case
  proof (cases "cmp x y \<le> 0")
    case True
    then have "le x y" by (simp add: cmp)
    with Cons.prems trans show ?thesis
      using True by auto
  next
    case False
    then have "le y x" using total [of x y] by (simp add: cmp)
    with Cons False show ?thesis
      by (auto simp: set_insertBy)
  qed
qed

lemma sorted_wrt_arraySort:
  assumes total: "\<And>a b. le a b \<or> le b a"
    and trans: "\<And>a b c. le a b \<Longrightarrow> le b c \<Longrightarrow> le a c"
    and cmp: "\<And>a b. cmp a b \<le> 0 \<longleftrightarrow> le a b"
  shows "sorted_wrt le (arraySort cmp xs)"
proof (induction xs)
  case Nil
  then show ?case by (simp add: arraySort_def)
next
  case (Cons x xs)
  have "arraySort cmp (x # xs) = insertBy cmp x (arraySort cmp xs)"
    by (simp add: arraySort_def)
  with Cons sorted_wrt_insertBy [of le cmp, OF total trans cmp] show ?case
    by simp
qed

lemma fold_snoc_map: "fold (\<lambda>x acc. acc @ [f x]) xs acc = acc @ map f xs"
  by (induction xs arbitrary: acc) auto

lemma fold_fold_concat:
  assumes "\<And>x acc. g x acc = acc @ f x"
  shows "fold g xs acc = acc @ concat (map f xs)"
  by (induction xs arbitrary: acc) (auto simp: assms)

lemma forOf_None_iff: "forOf body xs = None \<longleftrightarrow> (\<forall>x\<in>set xs. body x = None)"
  by (induction xs) (auto split: option.splits)

lemma forOf_Some: "forOf body xs = Some r \<Longrightarrow> \<exists>x\<in>set xs. body x = Some r"
  by (induction xs) (auto split: option.splits)

lemma concat_map_if_singleton:
  "concat (map (\<lambda>x. if P x then [f x] else []) xs) = map f (filter P xs)"
  by (induction xs) auto

lemma assignmentsFor_unsorted:
  "assignmentsFor c p =
     arraySort (\<lambda>a b. commitment (assignment b) - commitment (assignment a))
       [\<lparr>objective = ob, assignment = a\<rparr>.
          b \<leftarrow> buckets (period_byPerson c), ob \<leftarrow> objectives_imm b, a \<leftarrow> assignments ob,
          personId a = id_person p]"
proof -
  have inner: "fold (\<lambda>a result. result @ [\<lparr>objective = ob, assignment = a\<rparr>]) as acc
      = acc @ map (\<lambda>a. \<lparr>objective = ob, assignment = a\<rparr>) as" for ob as acc
    by (rule fold_snoc_map)
  have middle: "fold (\<lambda>ob result.
        fold (\<lambda>a result. result @ [\<lparr>objective = ob, assignment = a\<rparr>])
          (filter (\<lambda>a. personId a = id_person p) (assignments ob)) result) obs acc
      = acc @ concat (map (\<lambda>ob. map (\<lambda>a. \<lparr>objective = ob, assignment = a\<rparr>)
          (filter (\<lambda>a. personId a = id_person p) (assignments ob))) obs)" for obs acc
    by (rule fold_fold_concat) (simp add: inner)
  have outer: "fold (\<lambda>b result. fold (\<lambda>ob result.
        fold (\<lambda>a result. result @ [\<lparr>objective = ob, assignment = a\<rparr>])
          (filter (\<lambda>a. personId a = id_person p) (assignments ob)) result)
          (objectives_imm b) result) bs acc
      = acc @ concat (map (\<lambda>b. concat (map (\<lambda>ob. map (\<lambda>a. \<lparr>objective = ob, assignment = a\<rparr>)
          (filter (\<lambda>a. personId a = id_person p) (assignments ob))) (objectives_imm b))) bs)"
    for bs acc
    by (rule fold_fold_concat) (simp add: middle)
  show ?thesis
    by (simp add: assignmentsFor_def outer concat_map_if_singleton)
qed

text \<open>
  C7. For every period and person, \<open>assignmentsFor\<close> returns exactly the pairs of an
  objective and one of its assignments, over the objectives of all buckets, whose
  assignment is to that person, in descending order of the assignment's commitment.
\<close>

theorem assignmentsFor_filtered_sorted:
  "mset (assignmentsFor c p)
     = mset [\<lparr>objective = ob, assignment = a\<rparr>.
               b \<leftarrow> buckets (period_byPerson c), ob \<leftarrow> objectives_imm b, a \<leftarrow> assignments ob,
               personId a = id_person p]
   \<and> sorted_wrt (\<lambda>x y. commitment (assignment x) \<ge> commitment (assignment y))
       (assignmentsFor c p)"
proof -
  have "sorted_wrt (\<lambda>x y. commitment (assignment x) \<ge> commitment (assignment y))
      (arraySort (\<lambda>a b. commitment (assignment b) - commitment (assignment a)) xs)" for xs
    by (rule sorted_wrt_arraySort) auto
  then show ?thesis
    by (simp only: assignmentsFor_unsorted mset_arraySort simp_thms)
qed

theorem assignmentsFor_filtered_sorted_witness:
  "(let api = \<lparr>name = ''api'', groups = [], tags = [], assignments = [\<lparr>personId = ''ann'', commitment = 2\<rparr>, \<lparr>personId = ''bob'', commitment = 1\<rparr>], resourcesAllocated = 3\<rparr>;
        billing = \<lparr>name = ''billing'', groups = [], tags = [], assignments = [\<lparr>personId = ''ann'', commitment = 5\<rparr>], resourcesAllocated = 5\<rparr>;
        c = \<lparr>period_byPerson = \<lparr>buckets = [\<lparr>objectives_imm = [\<lparr>name = ''api'', groups = [], tags = [], assignments = [\<lparr>personId = ''ann'', commitment = 2\<rparr>, \<lparr>personId = ''bob'', commitment = 1\<rparr>], resourcesAllocated = 3\<rparr>]\<rparr>,
      \<lparr>objectives_imm = [\<lparr>name = ''billing'', groups = [], tags = [], assignments = [\<lparr>personId = ''ann'', commitment = 5\<rparr>], resourcesAllocated = 5\<rparr>]\<rparr>]\<rparr>\<rparr>;
        ann = \<lparr>id_person = ''ann'', displayName_person = ''Ann'', availability = 10\<rparr>
    in assignmentsFor c ann
         = [\<lparr>objective = billing, assignment = \<lparr>personId = ''ann'', commitment = 5\<rparr>\<rparr>,
            \<lparr>objective = api, assignment = \<lparr>personId = ''ann'', commitment = 2\<rparr>\<rparr>]
       \<and> mset (assignmentsFor c ann)
           = mset [\<lparr>objective = ob, assignment = a\<rparr>.
                     b \<leftarrow> buckets (period_byPerson c), ob \<leftarrow> objectives_imm b,
                     a \<leftarrow> assignments ob, personId a = id_person ann]
       \<and> sorted_wrt (\<lambda>x y. commitment (assignment x) \<ge> commitment (assignment y))
           (assignmentsFor c ann))"
proof -
  let ?c = "\<lparr>period_byPerson = \<lparr>buckets = [\<lparr>objectives_imm = [\<lparr>name = ''api'', groups = [], tags = [], assignments = [\<lparr>personId = ''ann'', commitment = 2\<rparr>, \<lparr>personId = ''bob'', commitment = 1\<rparr>], resourcesAllocated = 3\<rparr>]\<rparr>,
      \<lparr>objectives_imm = [\<lparr>name = ''billing'', groups = [], tags = [], assignments = [\<lparr>personId = ''ann'', commitment = 5\<rparr>], resourcesAllocated = 5\<rparr>]\<rparr>]\<rparr>\<rparr>"
  let ?ann = "\<lparr>id_person = ''ann'', displayName_person = ''Ann'', availability = 10\<rparr>"
  have run: "assignmentsFor ?c ?ann
      = [\<lparr>objective = \<lparr>name = ''billing'', groups = [], tags = [], assignments = [\<lparr>personId = ''ann'', commitment = 5\<rparr>], resourcesAllocated = 5\<rparr>, assignment = \<lparr>personId = ''ann'', commitment = 5\<rparr>\<rparr>,
         \<lparr>objective = \<lparr>name = ''api'', groups = [], tags = [], assignments = [\<lparr>personId = ''ann'', commitment = 2\<rparr>, \<lparr>personId = ''bob'', commitment = 1\<rparr>], resourcesAllocated = 3\<rparr>, assignment = \<lparr>personId = ''ann'', commitment = 2\<rparr>\<rparr>]"
    by (simp add: assignmentsFor_def arraySort_def)
  from assignmentsFor_filtered_sorted [of ?c ?ann] run show ?thesis
    unfolding Let_def by blast
qed

text \<open>
  C8. For every period and person, \<open>hasAssignments\<close> is true if and only if
  \<open>assignmentsFor\<close> returns a non-empty list.
\<close>

theorem hasAssignments_iff_assignmentsFor:
  "hasAssignments c p \<longleftrightarrow> assignmentsFor c p \<noteq> []"
proof -
  let ?inner = "\<lambda>ob. forOf (\<lambda>a. if personId a = id_person p then Some True else None)
      (assignments ob)"
  let ?middle = "\<lambda>b. forOf ?inner (objectives_imm b)"
  let ?outer = "forOf ?middle (buckets (period_byPerson c))"
  have outer_none: "?outer = None \<longleftrightarrow>
      [\<lparr>objective = ob, assignment = a\<rparr>.
         b \<leftarrow> buckets (period_byPerson c), ob \<leftarrow> objectives_imm b, a \<leftarrow> assignments ob,
         personId a = id_person p] = []"
    by (auto simp: forOf_None_iff split: if_splits)
  have only_true: "?outer = Some r \<Longrightarrow> r" for r
    by (auto dest!: forOf_Some split: if_splits)
  have "hasAssignments c p \<longleftrightarrow> ?outer \<noteq> None"
  proof (cases ?outer)
    case None
    then show ?thesis by (simp add: hasAssignments_def)
  next
    case (Some r)
    with only_true [of r] show ?thesis by (simp add: hasAssignments_def)
  qed
  then show ?thesis
    by (simp only: outer_none assignmentsFor_unsorted arraySort_Nil_iff)
qed

theorem hasAssignments_iff_assignmentsFor_witness:
  "hasAssignments
     \<lparr>period_byPerson = \<lparr>buckets = [\<lparr>objectives_imm = []\<rparr>, \<lparr>objectives_imm =
        [\<lparr>name = ''launch'', groups = [], tags = [],
          assignments = [\<lparr>personId = ''bob'', commitment = 1\<rparr>,
                         \<lparr>personId = ''ann'', commitment = 2\<rparr>],
          resourcesAllocated = 3\<rparr>]\<rparr>]\<rparr>\<rparr>
     \<lparr>id_person = ''ann'', displayName_person = ''Ann'', availability = 10\<rparr>
   \<and> assignmentsFor
     \<lparr>period_byPerson = \<lparr>buckets = [\<lparr>objectives_imm = []\<rparr>, \<lparr>objectives_imm =
        [\<lparr>name = ''launch'', groups = [], tags = [],
          assignments = [\<lparr>personId = ''bob'', commitment = 1\<rparr>,
                         \<lparr>personId = ''ann'', commitment = 2\<rparr>],
          resourcesAllocated = 3\<rparr>]\<rparr>]\<rparr>\<rparr>
     \<lparr>id_person = ''ann'', displayName_person = ''Ann'', availability = 10\<rparr> \<noteq> []
   \<and> \<not> hasAssignments
     \<lparr>period_byPerson = \<lparr>buckets = [\<lparr>objectives_imm = []\<rparr>, \<lparr>objectives_imm =
        [\<lparr>name = ''launch'', groups = [], tags = [],
          assignments = [\<lparr>personId = ''bob'', commitment = 1\<rparr>,
                         \<lparr>personId = ''ann'', commitment = 2\<rparr>],
          resourcesAllocated = 3\<rparr>]\<rparr>]\<rparr>\<rparr>
     \<lparr>id_person = ''zed'', displayName_person = ''Zed'', availability = 10\<rparr>
   \<and> assignmentsFor
     \<lparr>period_byPerson = \<lparr>buckets = [\<lparr>objectives_imm = []\<rparr>, \<lparr>objectives_imm =
        [\<lparr>name = ''launch'', groups = [], tags = [],
          assignments = [\<lparr>personId = ''bob'', commitment = 1\<rparr>,
                         \<lparr>personId = ''ann'', commitment = 2\<rparr>],
          resourcesAllocated = 3\<rparr>]\<rparr>]\<rparr>\<rparr>
     \<lparr>id_person = ''zed'', displayName_person = ''Zed'', availability = 10\<rparr> = []"
proof -
  let ?c = "\<lparr>period_byPerson = \<lparr>buckets = [\<lparr>objectives_imm = []\<rparr>, \<lparr>objectives_imm =
        [\<lparr>name = ''launch'', groups = [], tags = [],
          assignments = [\<lparr>personId = ''bob'', commitment = 1\<rparr>,
                         \<lparr>personId = ''ann'', commitment = 2\<rparr>],
          resourcesAllocated = 3\<rparr>]\<rparr>]\<rparr>\<rparr>"
  let ?ann = "\<lparr>id_person = ''ann'', displayName_person = ''Ann'', availability = 10\<rparr>"
  let ?zed = "\<lparr>id_person = ''zed'', displayName_person = ''Zed'', availability = 10\<rparr>"
  have "hasAssignments ?c ?ann" "\<not> hasAssignments ?c ?zed"
    by (simp_all add: hasAssignments_def)
  with hasAssignments_iff_assignmentsFor [of ?c ?ann]
    hasAssignments_iff_assignmentsFor [of ?c ?zed]
  show ?thesis by simp
qed

section \<open>The requests of the storage service\<close>

text \<open>
  C6. The storage service exposes eight operations and no others, four for teams and
  four for the periods of a team: a get of the collection and a get of one item, both
  \<open>GET\<close>; an add, a \<open>POST\<close> to the collection; an update, a \<open>PUT\<close> to the item. Team
  operations address \<^verbatim>\<open>/api/team/\<close> and \<^verbatim>\<open>/api/team/<id>\<close>, period operations
  \<^verbatim>\<open>/api/period/<teamId>/\<close> and \<^verbatim>\<open>/api/period/<teamId>/<id>\<close>. Every request of the
  service has one of these eight forms and every form is the request of some call. For
  one team and one period with non-empty ids the eight operations are eight different
  pairs of verb and URL, on four different URLs.
\<close>

theorem storage_requests:
  "(case call of
      GetTeams \<Rightarrow> verb (request call) = GET \<and> url (request call) = ''/api/team/''
    | GetTeam teamId \<Rightarrow> verb (request call) = GET \<and> url (request call) = ''/api/team/'' @ teamId
    | AddTeam t \<Rightarrow> verb (request call) = POST \<and> url (request call) = ''/api/team/''
    | UpdateTeam t \<Rightarrow>
        verb (request call) = PUT \<and> url (request call) = ''/api/team/'' @ id_team t
    | GetPeriods teamId \<Rightarrow>
        verb (request call) = GET \<and> url (request call) = ''/api/period/'' @ teamId @ ''/''
    | GetPeriod teamId periodId \<Rightarrow>
        verb (request call) = GET
        \<and> url (request call) = ''/api/period/'' @ teamId @ ''/'' @ periodId
    | AddPeriod teamId per \<Rightarrow>
        verb (request call) = POST \<and> url (request call) = ''/api/period/'' @ teamId @ ''/''
    | UpdatePeriod teamId per \<Rightarrow>
        verb (request call) = PUT
        \<and> url (request call) = ''/api/period/'' @ teamId @ ''/'' @ id_period per)
   \<and> range (\<lambda>call. (verb (request call), url (request call)))
       = {(GET, ''/api/team/''), (POST, ''/api/team/'')}
         \<union> {(GET, ''/api/team/'' @ teamId) | teamId. True}
         \<union> {(PUT, ''/api/team/'' @ teamId) | teamId. True}
         \<union> {(GET, ''/api/period/'' @ teamId @ ''/'') | teamId. True}
         \<union> {(POST, ''/api/period/'' @ teamId @ ''/'') | teamId. True}
         \<union> {(GET, ''/api/period/'' @ teamId @ ''/'' @ periodId) | teamId periodId. True}
         \<union> {(PUT, ''/api/period/'' @ teamId @ ''/'' @ periodId) | teamId periodId. True}
   \<and> (id_team tm \<noteq> [] \<and> id_period pd \<noteq> [] \<longrightarrow>
        distinct (map (\<lambda>call. (verb (request call), url (request call)))
          [GetTeams, GetTeam (id_team tm), AddTeam tm, UpdateTeam tm,
           GetPeriods (id_team tm), GetPeriod (id_team tm) (id_period pd),
           AddPeriod (id_team tm) pd, UpdatePeriod (id_team tm) pd])
        \<and> distinct [''/api/team/'', ''/api/team/'' @ id_team tm,
             ''/api/period/'' @ id_team tm @ ''/'',
             ''/api/period/'' @ id_team tm @ ''/'' @ id_period pd])
   \<and> url ` request `
         {GetTeams, GetTeam (id_team tm), AddTeam tm, UpdateTeam tm,
          GetPeriods (id_team tm), GetPeriod (id_team tm) (id_period pd),
          AddPeriod (id_team tm) pd, UpdatePeriod (id_team tm) pd}
       = {''/api/team/'', ''/api/team/'' @ id_team tm,
          ''/api/period/'' @ id_team tm @ ''/'',
          ''/api/period/'' @ id_team tm @ ''/'' @ id_period pd}"
proof -
  note defs = getTeams_def getTeam_def addTeam_def updateTeam_def getPeriods_def
    getPeriod_def addPeriod_def updatePeriod_def
  let ?pair = "\<lambda>call. (verb (request call), url (request call))"
  let ?forms = "{(GET, ''/api/team/''), (POST, ''/api/team/'')}
         \<union> {(GET, ''/api/team/'' @ teamId) | teamId. True}
         \<union> {(PUT, ''/api/team/'' @ teamId) | teamId. True}
         \<union> {(GET, ''/api/period/'' @ teamId @ ''/'') | teamId. True}
         \<union> {(POST, ''/api/period/'' @ teamId @ ''/'') | teamId. True}
         \<union> {(GET, ''/api/period/'' @ teamId @ ''/'' @ periodId) | teamId periodId. True}
         \<union> {(PUT, ''/api/period/'' @ teamId @ ''/'' @ periodId) | teamId periodId. True}"
  have each: "(case call of
      GetTeams \<Rightarrow> verb (request call) = GET \<and> url (request call) = ''/api/team/''
    | GetTeam teamId \<Rightarrow> verb (request call) = GET \<and> url (request call) = ''/api/team/'' @ teamId
    | AddTeam t \<Rightarrow> verb (request call) = POST \<and> url (request call) = ''/api/team/''
    | UpdateTeam t \<Rightarrow>
        verb (request call) = PUT \<and> url (request call) = ''/api/team/'' @ id_team t
    | GetPeriods teamId \<Rightarrow>
        verb (request call) = GET \<and> url (request call) = ''/api/period/'' @ teamId @ ''/''
    | GetPeriod teamId periodId \<Rightarrow>
        verb (request call) = GET
        \<and> url (request call) = ''/api/period/'' @ teamId @ ''/'' @ periodId
    | AddPeriod teamId per \<Rightarrow>
        verb (request call) = POST \<and> url (request call) = ''/api/period/'' @ teamId @ ''/''
    | UpdatePeriod teamId per \<Rightarrow>
        verb (request call) = PUT
        \<and> url (request call) = ''/api/period/'' @ teamId @ ''/'' @ id_period per)"
    by (cases call) (simp_all add: defs)
  have w: "?pair GetTeams = (GET, ''/api/team/'')"
    "\<And>x. ?pair (GetTeam x) = (GET, ''/api/team/'' @ x)"
    "\<And>x. ?pair (AddTeam x) = (POST, ''/api/team/'')"
    "\<And>x. ?pair (UpdateTeam x) = (PUT, ''/api/team/'' @ id_team x)"
    "\<And>x. ?pair (GetPeriods x) = (GET, ''/api/period/'' @ x @ ''/'')"
    "\<And>x y. ?pair (GetPeriod x y) = (GET, ''/api/period/'' @ x @ ''/'' @ y)"
    "\<And>x y. ?pair (AddPeriod x y) = (POST, ''/api/period/'' @ x @ ''/'')"
    "\<And>x y. ?pair (UpdatePeriod x y) = (PUT, ''/api/period/'' @ x @ ''/'' @ id_period y)"
    by (simp_all add: defs)
  have sub: "?pair x \<in> ?forms" for x
  proof (cases x)
    case GetTeams
    show ?thesis unfolding GetTeams w by blast
  next
    case (GetTeam a)
    show ?thesis unfolding GetTeam w by blast
  next
    case (AddTeam a)
    show ?thesis unfolding AddTeam w by blast
  next
    case (UpdateTeam a)
    show ?thesis unfolding UpdateTeam w by blast
  next
    case (GetPeriods a)
    show ?thesis unfolding GetPeriods w by blast
  next
    case (GetPeriod a b)
    show ?thesis unfolding GetPeriod w by blast
  next
    case (AddPeriod a b)
    show ?thesis unfolding AddPeriod w by blast
  next
    case (UpdatePeriod a b)
    show ?thesis unfolding UpdatePeriod w by blast
  qed
  have sup: "p \<in> range ?pair" if "p \<in> ?forms" for p
  proof -
    from that consider
        "p = (GET, ''/api/team/'')" | "p = (POST, ''/api/team/'')"
      | x where "p = (GET, ''/api/team/'' @ x)"
      | x where "p = (PUT, ''/api/team/'' @ x)"
      | x where "p = (GET, ''/api/period/'' @ x @ ''/'')"
      | x where "p = (POST, ''/api/period/'' @ x @ ''/'')"
      | x y where "p = (GET, ''/api/period/'' @ x @ ''/'' @ y)"
      | x y where "p = (PUT, ''/api/period/'' @ x @ ''/'' @ y)"
      by blast
    then show ?thesis
    proof cases
      case 1
      then have "p = ?pair GetTeams" by (simp only: w)
      then show ?thesis by (rule range_eqI)
    next
      case 2
      then have "p = ?pair (AddTeam \<lparr>id_team = []\<rparr>)" by (simp only: w)
      then show ?thesis by (rule range_eqI)
    next
      case 3
      then have "p = ?pair (GetTeam x)" by (simp only: w)
      then show ?thesis by (rule range_eqI)
    next
      case 4
      moreover have "?pair (UpdateTeam \<lparr>id_team = x\<rparr>) = (PUT, ''/api/team/'' @ x)"
        by (simp add: defs)
      ultimately have "p = ?pair (UpdateTeam \<lparr>id_team = x\<rparr>)" by (simp only:)
      then show ?thesis by (rule range_eqI)
    next
      case 5
      then have "p = ?pair (GetPeriods x)" by (simp only: w)
      then show ?thesis by (rule range_eqI)
    next
      case 6
      then have "p = ?pair (AddPeriod x \<lparr>id_period = []\<rparr>)" by (simp only: w)
      then show ?thesis by (rule range_eqI)
    next
      case 7
      then have "p = ?pair (GetPeriod x y)" by (simp only: w)
      then show ?thesis by (rule range_eqI)
    next
      case 8
      moreover have "?pair (UpdatePeriod x \<lparr>id_period = y\<rparr>)
          = (PUT, ''/api/period/'' @ x @ ''/'' @ y)"
        by (simp add: defs)
      ultimately have "p = ?pair (UpdatePeriod x \<lparr>id_period = y\<rparr>)" by (simp only:)
      then show ?thesis by (rule range_eqI)
    qed
  qed
  have all: "range ?pair = ?forms"
  proof (rule equalityI)
    show "range ?pair \<subseteq> ?forms" using sub by blast
    show "?forms \<subseteq> range ?pair" by (rule subsetI) (rule sup)
  qed
  have eight: "id_team tm \<noteq> [] \<and> id_period pd \<noteq> [] \<longrightarrow>
        distinct (map ?pair
          [GetTeams, GetTeam (id_team tm), AddTeam tm, UpdateTeam tm,
           GetPeriods (id_team tm), GetPeriod (id_team tm) (id_period pd),
           AddPeriod (id_team tm) pd, UpdatePeriod (id_team tm) pd])
        \<and> distinct [''/api/team/'', ''/api/team/'' @ id_team tm,
             ''/api/period/'' @ id_team tm @ ''/'',
             ''/api/period/'' @ id_team tm @ ''/'' @ id_period pd]"
    by (auto simp: defs)
  have urls: "url ` request `
         {GetTeams, GetTeam (id_team tm), AddTeam tm, UpdateTeam tm,
          GetPeriods (id_team tm), GetPeriod (id_team tm) (id_period pd),
          AddPeriod (id_team tm) pd, UpdatePeriod (id_team tm) pd}
       = {''/api/team/'', ''/api/team/'' @ id_team tm,
          ''/api/period/'' @ id_team tm @ ''/'',
          ''/api/period/'' @ id_team tm @ ''/'' @ id_period pd}"
    by (auto simp: defs)
  show ?thesis
    by (rule conjI [OF each conjI [OF all conjI [OF eight urls]]])
qed

theorem storage_requests_witness:
  "id_team \<lparr>id_team = ''t1''\<rparr> \<noteq> [] \<and> id_period \<lparr>id_period = ''2021q1''\<rparr> \<noteq> []
   \<and> verb (request (UpdatePeriod ''t1'' \<lparr>id_period = ''2021q1''\<rparr>)) = PUT
   \<and> url (request (UpdatePeriod ''t1'' \<lparr>id_period = ''2021q1''\<rparr>)) = ''/api/period/t1/2021q1''
   \<and> distinct (map (\<lambda>call. (verb (request call), url (request call)))
        [GetTeams, GetTeam ''t1'', AddTeam \<lparr>id_team = ''t1''\<rparr>, UpdateTeam \<lparr>id_team = ''t1''\<rparr>,
         GetPeriods ''t1'', GetPeriod ''t1'' ''2021q1'',
         AddPeriod ''t1'' \<lparr>id_period = ''2021q1''\<rparr>,
         UpdatePeriod ''t1'' \<lparr>id_period = ''2021q1''\<rparr>])
   \<and> distinct [''/api/team/'', ''/api/team/t1'', ''/api/period/t1/'', ''/api/period/t1/2021q1'']
   \<and> url ` request `
         {GetTeams, GetTeam ''t1'', AddTeam \<lparr>id_team = ''t1''\<rparr>, UpdateTeam \<lparr>id_team = ''t1''\<rparr>,
          GetPeriods ''t1'', GetPeriod ''t1'' ''2021q1'', AddPeriod ''t1'' \<lparr>id_period = ''2021q1''\<rparr>,
          UpdatePeriod ''t1'' \<lparr>id_period = ''2021q1''\<rparr>}
       = {''/api/team/'', ''/api/team/t1'', ''/api/period/t1/'', ''/api/period/t1/2021q1''}"
proof -
  have ids: "id_team \<lparr>id_team = ''t1''\<rparr> \<noteq> [] \<and> id_period \<lparr>id_period = ''2021q1''\<rparr> \<noteq> []"
    by simp
  note t = storage_requests
    [of "UpdatePeriod ''t1'' \<lparr>id_period = ''2021q1''\<rparr>"
        "\<lparr>id_team = ''t1''\<rparr>" "\<lparr>id_period = ''2021q1''\<rparr>"]
  from t [THEN conjunct1] have one:
    "verb (request (UpdatePeriod ''t1'' \<lparr>id_period = ''2021q1''\<rparr>)) = PUT
     \<and> url (request (UpdatePeriod ''t1'' \<lparr>id_period = ''2021q1''\<rparr>)) = ''/api/period/t1/2021q1''"
    by simp
  from t [THEN conjunct2, THEN conjunct2, THEN conjunct1] ids have eight:
    "distinct (map (\<lambda>call. (verb (request call), url (request call)))
        [GetTeams, GetTeam ''t1'', AddTeam \<lparr>id_team = ''t1''\<rparr>, UpdateTeam \<lparr>id_team = ''t1''\<rparr>,
         GetPeriods ''t1'', GetPeriod ''t1'' ''2021q1'',
         AddPeriod ''t1'' \<lparr>id_period = ''2021q1''\<rparr>,
         UpdatePeriod ''t1'' \<lparr>id_period = ''2021q1''\<rparr>])
     \<and> distinct [''/api/team/'', ''/api/team/t1'', ''/api/period/t1/'', ''/api/period/t1/2021q1'']"
    by simp
  from t [THEN conjunct2, THEN conjunct2, THEN conjunct2] have four:
    "url ` request `
         {GetTeams, GetTeam ''t1'', AddTeam \<lparr>id_team = ''t1''\<rparr>, UpdateTeam \<lparr>id_team = ''t1''\<rparr>,
          GetPeriods ''t1'', GetPeriod ''t1'' ''2021q1'', AddPeriod ''t1'' \<lparr>id_period = ''2021q1''\<rparr>,
          UpdatePeriod ''t1'' \<lparr>id_period = ''2021q1''\<rparr>}
       = {''/api/team/'', ''/api/team/t1'', ''/api/period/t1/'', ''/api/period/t1/2021q1''}"
    by simp
  from ids one eight four show ?thesis
    by blast
qed

text \<open>
  There is more than one get for each resource: getting all teams and getting one team
  are different \<open>GET\<close> requests under \<^verbatim>\<open>/api/team/\<close>, and likewise for periods. The
  eight methods of the service make eight different pairs of verb and URL.
\<close>

theorem storage_two_gets_counterexample:
  "request GetTeams \<noteq> request (GetTeam ''t1'')
   \<and> verb (request GetTeams) = GET \<and> verb (request (GetTeam ''t1'')) = GET
   \<and> url (request GetTeams) = ''/api/team/'' \<and> url (request (GetTeam ''t1'')) = ''/api/team/t1''
   \<and> request (GetPeriods ''t1'') \<noteq> request (GetPeriod ''t1'' ''2021q1'')
   \<and> verb (request (GetPeriods ''t1'')) = GET
   \<and> verb (request (GetPeriod ''t1'' ''2021q1'')) = GET
   \<and> distinct (map (\<lambda>call. (verb (request call), url (request call)))
        [GetTeams, GetTeam ''t1'', AddTeam \<lparr>id_team = ''t1''\<rparr>, UpdateTeam \<lparr>id_team = ''t1''\<rparr>,
         GetPeriods ''t1'', GetPeriod ''t1'' ''2021q1'',
         AddPeriod ''t1'' \<lparr>id_period = ''2021q1''\<rparr>,
         UpdatePeriod ''t1'' \<lparr>id_period = ''2021q1''\<rparr>])
   \<and> length [GetTeams, GetTeam ''t1'', AddTeam \<lparr>id_team = ''t1''\<rparr>, UpdateTeam \<lparr>id_team = ''t1''\<rparr>,
         GetPeriods ''t1'', GetPeriod ''t1'' ''2021q1'',
         AddPeriod ''t1'' \<lparr>id_period = ''2021q1''\<rparr>,
         UpdatePeriod ''t1'' \<lparr>id_period = ''2021q1''\<rparr>] = 8"
  by (simp add: getTeams_def getTeam_def addTeam_def updateTeam_def getPeriods_def
        getPeriod_def addPeriod_def updatePeriod_def)

section \<open>The modal availability\<close>

lemma mapGet_mapSet: "mapGet (mapSet k v m) k' = (if k' = k then Some v else mapGet m k')"
  by (induction m) (auto simp: mapGet_def)

lemma keys_mapSet_present: "k \<in> fst ` set m \<Longrightarrow> map fst (mapSet k v m) = map fst m"
  by (induction m) force+

lemma keys_mapSet_absent: "k \<notin> fst ` set m \<Longrightarrow> map fst (mapSet k v m) = map fst m @ [k]"
  by (induction m) auto

lemma keys_mapSet:
  "map fst (mapSet k v m) = (if k \<in> fst ` set m then map fst m else map fst m @ [k])"
  by (simp add: keys_mapSet_present keys_mapSet_absent)

lemma key_set_mapSet: "fst ` set (mapSet k v m) = insert k (fst ` set m)"
proof -
  have "set (map fst (mapSet k v m)) = insert k (set (map fst m))"
    by (auto simp: keys_mapSet)
  then show ?thesis by simp
qed

lemma pickMode_pair:
  "pickMode (a, f) (mf, md) = (if f > mf then (f, a) else (mf, md))"
  by (simp add: pickMode_def)

lemma mapGet_None_iff: "mapGet m k = None \<longleftrightarrow> k \<notin> fst ` set m"
  by (simp add: mapGet_def map_of_eq_None_iff)

lemma countAvailability_present: "mapGet (countAvailability p m) (availability p) \<noteq> None"
  by (auto simp: countAvailability_def mapGet_mapSet Let_def split: option.splits)

lemma mapGet_countAvailability:
  "mapGet (countAvailability p m) x =
     (if x = availability p
      then Some (case mapGet m x of None \<Rightarrow> 1 | Some n \<Rightarrow> n + 1)
      else mapGet m x)"
  by (auto simp: countAvailability_def mapGet_mapSet Let_def split: option.splits)

lemma keys_countAvailability:
  "map fst (countAvailability p m) =
     (if availability p \<in> fst ` set m then map fst m else map fst m @ [availability p])"
proof (cases "mapGet m (availability p)")
  case None
  then have "availability p \<notin> fst ` set m" by (simp add: mapGet_None_iff)
  with None show ?thesis
    by (simp add: countAvailability_def mapGet_mapSet keys_mapSet key_set_mapSet Let_def)
next
  case (Some n)
  then have "availability p \<in> fst ` set m"
    using mapGet_None_iff [of m "availability p"] by auto
  with Some show ?thesis
    by (auto simp: countAvailability_def mapGet_mapSet keys_mapSet key_set_mapSet Let_def)
qed

lemma availCounts_invariant:
  "distinct (map fst (fold countAvailability ps []))
   \<and> set (map fst (fold countAvailability ps [])) = availability ` set ps
   \<and> (\<forall>x. mapGet (fold countAvailability ps []) x =
         (if x \<in> availability ` set ps then Some (count_list (map availability ps) x) else None))"
proof (induction ps rule: rev_induct)
  case Nil
  then show ?case by (simp add: mapGet_def)
next
  case (snoc p ps)
  let ?m = "fold countAvailability ps []"
  have keys: "fst ` set ?m = availability ` set ps"
    using snoc by simp
  have d: "distinct (map fst (countAvailability p ?m))"
    using snoc keys by (simp add: keys_countAvailability)
  have s: "set (map fst (countAvailability p ?m)) = availability ` set (ps @ [p])"
    using snoc keys by (auto simp: keys_countAvailability)
  have g: "mapGet (countAvailability p ?m) x =
      (if x \<in> availability ` set (ps @ [p])
       then Some (count_list (map availability (ps @ [p])) x) else None)" for x
    using snoc by (auto simp: mapGet_countAvailability)
  from d s g show ?case by simp
qed

lemma availCounts_first_occurrence:
  "map fst (fold countAvailability ps []) = kp @ m # kq \<Longrightarrow>
   \<exists>pre post. map availability ps = pre @ m # post \<and> m \<notin> set pre \<and> set pre \<subseteq> set kp"
proof (induction ps arbitrary: kq rule: rev_induct)
  case Nil
  then show ?case by simp
next
  case (snoc p ps)
  let ?m = "fold countAvailability ps []"
  have keys: "fst ` set ?m = availability ` set ps"
    using availCounts_invariant [of ps] by simp
  show ?case
  proof (cases "availability p \<in> availability ` set ps")
    case True
    with snoc.prems keys have "map fst ?m = kp @ m # kq"
      by (simp add: keys_countAvailability)
    from snoc.IH [OF this] obtain pre post where
      "map availability ps = pre @ m # post" "m \<notin> set pre" "set pre \<subseteq> set kp"
      by blast
    then have "map availability (ps @ [p]) = pre @ m # (post @ [availability p])
        \<and> m \<notin> set pre \<and> set pre \<subseteq> set kp"
      by simp
    then show ?thesis by blast
  next
    case False
    with snoc.prems keys have eq: "map fst ?m @ [availability p] = kp @ m # kq"
      by (simp add: keys_countAvailability)
    show ?thesis
    proof (cases kq rule: rev_cases)
      case Nil
      with eq have "map fst ?m = kp" "m = availability p" by simp_all
      with keys False have "map availability (ps @ [p]) = map availability ps @ m # []
          \<and> m \<notin> set (map availability ps) \<and> set (map availability ps) \<subseteq> set kp"
        by auto
      then show ?thesis by blast
    next
      case (snoc kq' k)
      with eq have "map fst ?m = kp @ m # kq'" by simp
      from snoc.IH [OF this] obtain pre post where
        "map availability ps = pre @ m # post" "m \<notin> set pre" "set pre \<subseteq> set kp"
        by blast
      then have "map availability (ps @ [p]) = pre @ m # (post @ [availability p])
          \<and> m \<notin> set pre \<and> set pre \<subseteq> set kp"
        by simp
      then show ?thesis by blast
    qed
  qed
qed

lemma fold_pickMode:
  "fold pickMode es (mf, md) = (mf', md') \<Longrightarrow>
   (\<forall>e\<in>set es. snd e \<le> mf') \<and> mf \<le> mf'
   \<and> ((mf' = mf \<and> md' = md)
      \<or> (\<exists>pre post. es = pre @ (md', mf') # post \<and> (\<forall>e\<in>set pre. snd e < mf') \<and> mf < mf'))"
proof (induction es arbitrary: mf md)
  case Nil
  then show ?case by simp
next
  case (Cons e es)
  obtain a f where e: "e = (a, f)" by (cases e)
  show ?case
  proof (cases "f > mf")
    case True
    with Cons.prems e have "fold pickMode es (f, a) = (mf', md')"
      by (simp add: pickMode_pair)
    from Cons.IH [OF this] have
      all: "\<forall>e\<in>set es. snd e \<le> mf'" and le: "f \<le> mf'"
      and alt: "(mf' = f \<and> md' = a)
        \<or> (\<exists>pre post. es = pre @ (md', mf') # post \<and> (\<forall>e\<in>set pre. snd e < mf') \<and> f < mf')"
      by auto
    from alt have "\<exists>pre post. e # es = pre @ (md', mf') # post \<and> (\<forall>e\<in>set pre. snd e < mf')"
    proof
      assume "mf' = f \<and> md' = a"
      then have "e # es = [] @ (md', mf') # es \<and> (\<forall>e\<in>set []. snd e < mf')"
        using e by simp
      then show ?thesis by blast
    next
      assume "\<exists>pre post. es = pre @ (md', mf') # post \<and> (\<forall>e\<in>set pre. snd e < mf') \<and> f < mf'"
      then obtain pre post where
        "es = pre @ (md', mf') # post" "\<forall>e\<in>set pre. snd e < mf'" "f < mf'"
        by blast
      then have "e # es = (e # pre) @ (md', mf') # post \<and> (\<forall>e\<in>set (e # pre). snd e < mf')"
        using e by simp
      then show ?thesis by blast
    qed
    with all le True e show ?thesis by auto
  next
    case False
    with Cons.prems e have "fold pickMode es (mf, md) = (mf', md')"
      by (simp add: pickMode_pair)
    from Cons.IH [OF this] have
      all: "\<forall>e\<in>set es. snd e \<le> mf'" and le: "mf \<le> mf'"
      and alt: "(mf' = mf \<and> md' = md)
        \<or> (\<exists>pre post. es = pre @ (md', mf') # post \<and> (\<forall>e\<in>set pre. snd e < mf') \<and> mf < mf')"
      by auto
    from alt have "(mf' = mf \<and> md' = md)
        \<or> (\<exists>pre post. e # es = pre @ (md', mf') # post \<and> (\<forall>e\<in>set pre. snd e < mf') \<and> mf < mf')"
    proof
      assume "mf' = mf \<and> md' = md"
      then show ?thesis by simp
    next
      assume "\<exists>pre post. es = pre @ (md', mf') # post \<and> (\<forall>e\<in>set pre. snd e < mf') \<and> mf < mf'"
      then obtain pre post where
        "es = pre @ (md', mf') # post" "\<forall>e\<in>set pre. snd e < mf'" "mf < mf'"
        by blast
      with False e have "e # es = (e # pre) @ (md', mf') # post
          \<and> (\<forall>e\<in>set (e # pre). snd e < mf') \<and> mf < mf'"
        by auto
      then show ?thesis by blast
    qed
    with all le False e show ?thesis by auto
  qed
qed

text \<open>
  C10. \<open>defaultPersonAvailability\<close> is \<open>0\<close> for an empty list of people. Otherwise it is
  an availability whose frequency among the people is maximal, and the first such one in
  order of first appearance: every availability that appears before its first
  occurrence is strictly less frequent.
\<close>

theorem defaultPersonAvailability_mode:
  "(people c = [] \<longrightarrow> defaultPersonAvailability c = 0)
   \<and> (people c \<noteq> [] \<longrightarrow>
        (\<forall>a. count_list (map availability (people c)) a
               \<le> count_list (map availability (people c)) (defaultPersonAvailability c))
        \<and> (\<exists>pre post.
              map availability (people c) = pre @ defaultPersonAvailability c # post
              \<and> defaultPersonAvailability c \<notin> set pre
              \<and> (\<forall>a\<in>set pre. count_list (map availability (people c)) a
                    < count_list (map availability (people c)) (defaultPersonAvailability c))))"
proof (intro conjI impI)
  assume "people c = []"
  then show "defaultPersonAvailability c = 0"
    by (simp add: defaultPersonAvailability_def)
next
  assume nonempty: "people c \<noteq> []"
  let ?as = "map availability (people c)"
  let ?es = "fold countAvailability (people c) []"
  obtain mf md where res: "fold pickMode ?es (0, 0) = (mf, md)"
    by (cases "fold pickMode ?es (0, 0)")
  then have mode: "defaultPersonAvailability c = md"
    by (simp add: defaultPersonAvailability_def)
  have inv: "distinct (map fst ?es)" "set (map fst ?es) = availability ` set (people c)"
    "\<And>x. mapGet ?es x = (if x \<in> availability ` set (people c)
        then Some (count_list ?as x) else None)"
    using availCounts_invariant [of "people c"] by auto
  have entry: "f = count_list ?as a \<and> a \<in> set ?as" if "(a, f) \<in> set ?es" for a f
  proof -
    from that inv(1) have "mapGet ?es a = Some f"
      by (simp add: mapGet_def)
    with inv(3) [of a] show ?thesis
      by (auto split: if_splits)
  qed
  from fold_pickMode [OF res] have
    all: "\<forall>e\<in>set ?es. snd e \<le> mf"
    and alt: "(mf = 0 \<and> md = 0)
      \<or> (\<exists>pre post. ?es = pre @ (md, mf) # post \<and> (\<forall>e\<in>set pre. snd e < mf) \<and> 0 < mf)"
    by auto
  from nonempty obtain p where p: "p \<in> set (people c)"
    by (cases "people c") auto
  then have "availability p \<in> set (map fst ?es)"
    using inv(2) by simp
  then obtain f where pf: "(availability p, f) \<in> set ?es"
    by auto
  from entry [OF pf] have "f = count_list ?as (availability p)" by simp
  moreover have "count_list ?as (availability p) > 0"
  proof -
    from p have "availability p \<in> set ?as" by simp
    then have "count_list ?as (availability p) \<noteq> 0"
      by (simp only: count_list_0_iff not_not)
    then show ?thesis by simp
  qed
  ultimately have "0 < mf"
    using all pf by force
  with alt obtain pre post where
    split: "?es = pre @ (md, mf) # post" and before: "\<forall>e\<in>set pre. snd e < mf"
    by auto
  from split have "(md, mf) \<in> set ?es" by simp
  from entry [OF this] have mf: "mf = count_list ?as md" by simp
  show "\<forall>a. count_list ?as a \<le> count_list ?as (defaultPersonAvailability c)"
  proof
    fix a
    show "count_list ?as a \<le> count_list ?as (defaultPersonAvailability c)"
    proof (cases "a \<in> set ?as")
      case True
      then have "a \<in> set (map fst ?es)" using inv(2) by simp
      then obtain g where ag: "(a, g) \<in> set ?es" by auto
      from entry [OF ag] all ag show ?thesis
        by (force simp: mode mf)
    next
      case False
      then show ?thesis by (simp add: count_list_0_iff)
    qed
  qed
  from split have "map fst ?es = map fst pre @ md # map fst post"
    by simp
  from availCounts_first_occurrence [OF this] obtain pre' post' where
    occ: "?as = pre' @ md # post'" "md \<notin> set pre'" "set pre' \<subseteq> set (map fst pre)"
    by blast
  have "count_list ?as a < count_list ?as md" if "a \<in> set pre'" for a
  proof -
    from that occ(3) obtain g where ag: "(a, g) \<in> set pre" by auto
    then have "(a, g) \<in> set ?es" using split by simp
    from entry [OF this] before ag show ?thesis
      by (force simp: mf)
  qed
  with occ show "\<exists>pre post.
      ?as = pre @ defaultPersonAvailability c # post
      \<and> defaultPersonAvailability c \<notin> set pre
      \<and> (\<forall>a\<in>set pre. count_list ?as a < count_list ?as (defaultPersonAvailability c))"
    unfolding mode by blast
qed

theorem defaultPersonAvailability_mode_witness:
  "people \<lparr>people = [], peopleAllocations = Map.empty,
      peopleCommittedAllocations = Map.empty, peopleAssignmentCounts = Map.empty\<rparr> = []
   \<and> defaultPersonAvailability \<lparr>people = [], peopleAllocations = Map.empty,
      peopleCommittedAllocations = Map.empty, peopleAssignmentCounts = Map.empty\<rparr> = 0
   \<and> people \<lparr>people =
        [\<lparr>id_person = ''ann'', displayName_person = ''Ann'', availability = 5\<rparr>,
         \<lparr>id_person = ''bob'', displayName_person = ''Bob'', availability = 3\<rparr>,
         \<lparr>id_person = ''cat'', displayName_person = ''Cat'', availability = 3\<rparr>,
         \<lparr>id_person = ''dan'', displayName_person = ''Dan'', availability = 5\<rparr>,
         \<lparr>id_person = ''eve'', displayName_person = ''Eve'', availability = 7\<rparr>],
      peopleAllocations = Map.empty,
      peopleCommittedAllocations = Map.empty, peopleAssignmentCounts = Map.empty\<rparr> \<noteq> []
   \<and> defaultPersonAvailability \<lparr>people =
        [\<lparr>id_person = ''ann'', displayName_person = ''Ann'', availability = 5\<rparr>,
         \<lparr>id_person = ''bob'', displayName_person = ''Bob'', availability = 3\<rparr>,
         \<lparr>id_person = ''cat'', displayName_person = ''Cat'', availability = 3\<rparr>,
         \<lparr>id_person = ''dan'', displayName_person = ''Dan'', availability = 5\<rparr>,
         \<lparr>id_person = ''eve'', displayName_person = ''Eve'', availability = 7\<rparr>],
      peopleAllocations = Map.empty,
      peopleCommittedAllocations = Map.empty, peopleAssignmentCounts = Map.empty\<rparr> = 5
   \<and> (\<forall>a. count_list [5, 3, 3, 5, 7 :: number] a \<le> count_list [5, 3, 3, 5, 7 :: number] 5)"
proof -
  let ?none = "\<lparr>people = [], peopleAllocations = Map.empty,
      peopleCommittedAllocations = Map.empty, peopleAssignmentCounts = Map.empty\<rparr>"
  let ?five = "\<lparr>people =
        [\<lparr>id_person = ''ann'', displayName_person = ''Ann'', availability = 5\<rparr>,
         \<lparr>id_person = ''bob'', displayName_person = ''Bob'', availability = 3\<rparr>,
         \<lparr>id_person = ''cat'', displayName_person = ''Cat'', availability = 3\<rparr>,
         \<lparr>id_person = ''dan'', displayName_person = ''Dan'', availability = 5\<rparr>,
         \<lparr>id_person = ''eve'', displayName_person = ''Eve'', availability = 7\<rparr>],
      peopleAllocations = Map.empty,
      peopleCommittedAllocations = Map.empty, peopleAssignmentCounts = Map.empty\<rparr>"
  have mode5: "defaultPersonAvailability ?five = 5"
    by (simp add: defaultPersonAvailability_def countAvailability_def pickMode_def mapGet_def)
  have "people ?none = []" and "people ?five \<noteq> []"
    by simp_all
  with defaultPersonAvailability_mode [of ?none] defaultPersonAvailability_mode [of ?five]
  have "defaultPersonAvailability ?none = 0"
    and "\<forall>a. count_list (map availability (people ?five)) a
               \<le> count_list (map availability (people ?five)) (defaultPersonAvailability ?five)"
    by blast+
  then show ?thesis
    by (simp add: mode5)
qed

section \<open>Objectives by group and by tag\<close>

lemma fold_nested_concat: "fold (\<lambda>x m. fold step (f x) m) xs m = fold step (concat (map f xs)) m"
  by (induction xs arbitrary: m) auto

lemma mapGet_pushOrSet:
  "mapGet (pushOrSet k v m) k' =
     (if k' = k then Some ((case mapGet m k of None \<Rightarrow> [] | Some obs \<Rightarrow> obs) @ [v])
      else mapGet m k')"
  by (auto simp: pushOrSet_def mapHas_def mapGet_mapSet split: option.splits)

lemma keys_pushOrSet:
  "map fst (pushOrSet k v m) = (if k \<in> fst ` set m then map fst m else map fst m @ [k])"
proof (cases "mapGet m k")
  case None
  then have "k \<notin> fst ` set m" by (simp add: mapGet_None_iff)
  with None show ?thesis
    by (simp add: pushOrSet_def mapHas_def keys_mapSet)
next
  case (Some obs)
  then have "k \<in> fst ` set m"
    using mapGet_None_iff [of m k] by auto
  with Some show ?thesis
    by (simp add: pushOrSet_def mapHas_def keys_mapSet)
qed

lemma pushAll_snoc: "pushAll (kvs @ [(k, v)]) m = pushOrSet k v (pushAll kvs m)"
  by (simp add: pushAll_def)

lemma pushAll_invariant:
  "distinct (map fst (pushAll kvs []))
   \<and> set (map fst (pushAll kvs [])) = fst ` set kvs
   \<and> (\<forall>k. mapGet (pushAll kvs []) k =
         (if k \<in> fst ` set kvs then Some (map snd (filter (\<lambda>kv. fst kv = k) kvs)) else None))"
proof (induction kvs rule: rev_induct)
  case Nil
  then show ?case by (simp add: pushAll_def mapGet_def)
next
  case (snoc kv kvs)
  obtain k v where kv: "kv = (k, v)" by (cases kv)
  let ?m = "pushAll kvs []"
  have keys: "fst ` set ?m = fst ` set kvs"
    using snoc by simp
  have d: "distinct (map fst (pushOrSet k v ?m))"
    using snoc keys by (simp add: keys_pushOrSet)
  have s: "set (map fst (pushOrSet k v ?m)) = fst ` set (kvs @ [kv])"
    using snoc keys kv by (auto simp: keys_pushOrSet)
  have g: "mapGet (pushOrSet k v ?m) k' =
      (if k' \<in> fst ` set (kvs @ [kv])
       then Some (map snd (filter (\<lambda>kv. fst kv = k') (kvs @ [kv]))) else None)" for k'
    using snoc kv by (auto simp: mapGet_pushOrSet filter_empty_conv image_iff)
  from d s g show ?case by (simp add: kv pushAll_snoc)
qed

lemma pushAll_entry:
  assumes "(k, obs) \<in> set (pushAll kvs [])"
  shows "obs = map snd (filter (\<lambda>kv. fst kv = k) kvs) \<and> k \<in> fst ` set kvs"
proof -
  have inv: "distinct (map fst (pushAll kvs []))"
    "\<And>k. mapGet (pushAll kvs []) k =
       (if k \<in> fst ` set kvs then Some (map snd (filter (\<lambda>kv. fst kv = k) kvs)) else None)"
    using pushAll_invariant [of kvs] by auto
  from assms inv(1) have "mapGet (pushAll kvs []) k = Some obs"
    by (simp add: mapGet_def)
  with inv(2) [of k] show ?thesis
    by (auto split: if_splits)
qed

lemma concat_map_concat:
  "concat (map (\<lambda>x. concat (map f (g x))) xs) = concat (map f (concat (map g xs)))"
  by (induction xs) auto

lemma find_as_filter: "(case filter P xs of [] \<Rightarrow> None | x # _ \<Rightarrow> Some x) = find P xs"
  by (induction xs) auto

lemma mset_map_fst_arraySort: "mset (map fst (arraySort cmp xs)) = mset (map fst xs)"
  using mset_arraySort [of cmp xs] by (metis mset_map)

lemma distinct_keys_arraySort: "distinct (map fst (arraySort cmp xs)) \<longleftrightarrow> distinct (map fst xs)"
  using mset_map_fst_arraySort [of cmp xs] by (rule mset_eq_imp_distinct_iff)

lemma sorted_by_resources:
  "sorted_wrt (\<lambda>a b. resourcesAllocated a \<ge> resourcesAllocated b)
     (arraySort (\<lambda>o1 o2. resourcesAllocated o2 - resourcesAllocated o1) obs)"
  by (rule sorted_wrt_arraySort) auto

text \<open>What both aggregations return before the entries are put in order.\<close>

lemma sorted_entries:
  assumes "(k, obs) \<in> set (map (\<lambda>(g, obs).
        (g, arraySort (\<lambda>o1 o2. resourcesAllocated o2 - resourcesAllocated o1) obs))
      (pushAll kvs []))"
  shows "mset obs = mset (map snd (filter (\<lambda>kv. fst kv = k) kvs))
    \<and> sorted_wrt (\<lambda>a b. resourcesAllocated a \<ge> resourcesAllocated b) obs"
proof -
  from assms obtain obs' where
    "(k, obs') \<in> set (pushAll kvs [])"
    and obs: "obs = arraySort (\<lambda>o1 o2. resourcesAllocated o2 - resourcesAllocated o1) obs'"
    by auto
  from pushAll_entry [OF this(1)] have "obs' = map snd (filter (\<lambda>kv. fst kv = k) kvs)"
    by simp
  with obs show ?thesis
    by (simp add: mset_arraySort sorted_by_resources)
qed

lemma keys_sorted_entries:
  "map fst (map (\<lambda>(g, obs). (g, f obs)) m) = map fst m"
  by (induction m) auto

lemma objectivesByGroup_as_pushAll:
  "objectivesByGroup localeCompare tra c =
     arraySort
       (\<lambda>(g1, obs1) (g2, obs2).
          if tra obs2 - tra obs1 \<noteq> 0 then tra obs2 - tra obs1 else localeCompare g1 g2)
       (map (\<lambda>(g, obs).
              (g, arraySort (\<lambda>o1 o2. resourcesAllocated o2 - resourcesAllocated o1) obs))
          (pushAll
            (concat (map (\<lambda>ob.
               case find (\<lambda>g. Some (groupType g) = groupType_component c) (groups ob) of
                 None \<Rightarrow> [] | Some g \<Rightarrow> [(groupName g, ob)])
               (concat (map objectives_imm (buckets (period c))))))
            []))"
proof -
  let ?P = "\<lambda>g. Some (groupType g) = groupType_component c"
  let ?keys = "\<lambda>ob. case find ?P (groups ob) of None \<Rightarrow> [] | Some g \<Rightarrow> [(groupName g, ob)]"
  have step: "(let mgs = filter ?P (groups ob)
               in case mgs of [] \<Rightarrow> m | g # _ \<Rightarrow> pushOrSet (groupName g) ob m)
      = fold (\<lambda>(k, v) m. pushOrSet k v m) (?keys ob) m" for ob m
  proof (cases "filter ?P (groups ob)")
    case Nil
    with find_as_filter [of ?P "groups ob"] have "find ?P (groups ob) = None" by simp
    with Nil show ?thesis by simp
  next
    case (Cons g rest)
    with find_as_filter [of ?P "groups ob"] have "find ?P (groups ob) = Some g" by simp
    with Cons show ?thesis by simp
  qed
  have "fold (\<lambda>b m. fold (\<lambda>ob m.
            let mgs = filter ?P (groups ob)
            in case mgs of [] \<Rightarrow> m | g # _ \<Rightarrow> pushOrSet (groupName g) ob m)
          (objectives_imm b) m) (buckets (period c)) []
      = pushAll (concat (map ?keys (concat (map objectives_imm (buckets (period c)))))) []"
    by (simp only: step pushAll_def fold_nested_concat concat_map_concat)
  then show ?thesis
    by (simp add: objectivesByGroup_def totalAssignedResources_def Let_def)
qed

lemma objectivesByTag_as_pushAll:
  "objectivesByTag localeCompare c =
     arraySort (\<lambda>(g1, _) (g2, _). localeCompare g1 g2)
       (map (\<lambda>(g, obs).
              (g, arraySort (\<lambda>o1 o2. resourcesAllocated o2 - resourcesAllocated o1) obs))
          (pushAll
            (concat (map (\<lambda>ob. map (\<lambda>t. (name_tag t, ob)) (tags ob))
               (concat (map objectives_imm (buckets (period c))))))
            []))"
proof -
  have step: "fold (\<lambda>t m. pushOrSet (name_tag t) ob m) ts m
      = fold (\<lambda>(k, v) m. pushOrSet k v m) (map (\<lambda>t. (name_tag t, ob)) ts) m" for ob ts m
    by (induction ts arbitrary: m) auto
  have "fold (\<lambda>b m. fold (\<lambda>ob m. fold (\<lambda>t m. pushOrSet (name_tag t) ob m) (tags ob) m)
          (objectives_imm b) m) (buckets (period c)) []
      = pushAll (concat (map (\<lambda>ob. map (\<lambda>t. (name_tag t, ob)) (tags ob))
          (concat (map objectives_imm (buckets (period c)))))) []"
    by (simp only: step pushAll_def fold_nested_concat concat_map_concat)
  then show ?thesis
    by (simp add: objectivesByTag_def Let_def)
qed

lemma group_entry_members:
  "map snd (filter (\<lambda>kv. fst kv = k)
      (concat (map (\<lambda>ob. case find P (groups ob) of
                 None \<Rightarrow> [] | Some g \<Rightarrow> [(groupName g, ob)]) obs)))
   = filter (\<lambda>ob. map_option groupName (find P (groups ob)) = Some k) obs"
  by (induction obs) (auto split: option.splits)

lemma keys_of_concat: "fst ` set (concat (map f xs)) = (\<Union>x\<in>set xs. fst ` set (f x))"
  by (simp add: image_UN)

lemma group_entry_keys:
  "fst ` set (concat (map (\<lambda>ob. case find P (groups ob) of
                 None \<Rightarrow> [] | Some g \<Rightarrow> [(groupName g, ob)]) obs))
   = {k. \<exists>ob\<in>set obs. map_option groupName (find P (groups ob)) = Some k}"
proof -
  have one: "fst ` set (case find P (groups ob) of None \<Rightarrow> [] | Some g \<Rightarrow> [(groupName g, ob)])
      = {k. map_option groupName (find P (groups ob)) = Some k}" for ob
    by (cases "find P (groups ob)") auto
  have "{k. \<exists>ob\<in>set obs. map_option groupName (find P (groups ob)) = Some k}
      = (\<Union>ob\<in>set obs. {k. map_option groupName (find P (groups ob)) = Some k})"
    by blast
  then show ?thesis
    by (simp only: keys_of_concat one)
qed

lemma tag_entry_members:
  "map snd (filter (\<lambda>kv. fst kv = k)
      (concat (map (\<lambda>ob. map (\<lambda>t. (name_tag t, ob)) (tags ob)) obs)))
   = [ob. ob \<leftarrow> obs, t \<leftarrow> tags ob, name_tag t = k]"
proof -
  have inner: "map snd (filter (\<lambda>kv. fst kv = k) (map (\<lambda>t. (name_tag t, ob)) ts))
      = concat (map (\<lambda>t. if name_tag t = k then [ob] else []) ts)" for ob ts
    by (induction ts) auto
  show ?thesis
    by (induction obs) (auto simp: inner)
qed

lemma tag_entry_keys:
  "fst ` set (concat (map (\<lambda>ob. map (\<lambda>t. (name_tag t, ob)) (tags ob)) obs))
   = {k. \<exists>ob\<in>set obs. \<exists>t\<in>set (tags ob). name_tag t = k}"
proof -
  have one: "fst ` set (map (\<lambda>t. (name_tag t, ob)) (tags ob))
      = {k. \<exists>t\<in>set (tags ob). name_tag t = k}" for ob
    by force
  have "{k. \<exists>ob\<in>set obs. \<exists>t\<in>set (tags ob). name_tag t = k}
      = (\<Union>ob\<in>set obs. {k. \<exists>t\<in>set (tags ob). name_tag t = k})"
    by blast
  then show ?thesis
    by (simp only: keys_of_concat one)
qed

text \<open>
  C1. For every period and group type, \<open>objectivesByGroup\<close> returns one entry per group
  name. The entry of a group name holds exactly the objectives, of all buckets, whose
  first group of the component's group type has that name; an objective without such a
  group is in no entry, and every group name that some objective is filed under has an
  entry. Within an entry the objectives are in descending order of their allocated
  resources. The entries are in descending order of their total assigned resources, ties
  in ascending order of the group name, as \<^verbatim>\<open>localeCompare\<close> orders names (it is taken to
  be a consistent comparison: total and transitive).
\<close>

theorem objectivesByGroup_entries:
  "distinct (map fst (objectivesByGroup localeCompare tra c))
   \<and> fst ` set (objectivesByGroup localeCompare tra c)
       = {k. \<exists>ob\<in>set (concat (map objectives_imm (buckets (period c)))).
               map_option groupName
                 (find (\<lambda>g. Some (groupType g) = groupType_component c) (groups ob)) = Some k}
   \<and> (\<forall>(k, obs)\<in>set (objectivesByGroup localeCompare tra c).
         mset obs
           = mset (filter
               (\<lambda>ob. map_option groupName
                  (find (\<lambda>g. Some (groupType g) = groupType_component c) (groups ob)) = Some k)
               (concat (map objectives_imm (buckets (period c)))))
         \<and> sorted_wrt (\<lambda>a b. resourcesAllocated a \<ge> resourcesAllocated b) obs)
   \<and> ((\<forall>a b. localeCompare a b \<le> 0 \<or> localeCompare b a \<le> 0)
        \<and> (\<forall>a b d. localeCompare a b \<le> 0 \<and> localeCompare b d \<le> 0 \<longrightarrow> localeCompare a d \<le> 0)
       \<longrightarrow> sorted_wrt
             (\<lambda>(g1, obs1) (g2, obs2).
                totalAssignedResources tra obs1 > totalAssignedResources tra obs2
                \<or> (totalAssignedResources tra obs1 = totalAssignedResources tra obs2
                    \<and> localeCompare g1 g2 \<le> 0))
             (objectivesByGroup localeCompare tra c))"
proof -
  let ?P = "\<lambda>g. Some (groupType g) = groupType_component c"
  let ?all = "concat (map objectives_imm (buckets (period c)))"
  define kvs where "kvs = concat (map (\<lambda>ob. case find ?P (groups ob) of
      None \<Rightarrow> [] | Some g \<Rightarrow> [(groupName g, ob)]) ?all)"
  define entries where "entries = map (\<lambda>(g, obs).
      (g, arraySort (\<lambda>o1 o2. resourcesAllocated o2 - resourcesAllocated o1) obs)) (pushAll kvs [])"
  define cmp where "cmp = (\<lambda>(g1 :: string, obs1) (g2 :: string, obs2).
      if tra obs2 - tra obs1 \<noteq> 0 then tra obs2 - tra obs1 else localeCompare g1 g2)"
  have result: "objectivesByGroup localeCompare tra c = arraySort cmp entries"
    by (simp only: objectivesByGroup_as_pushAll kvs_def entries_def cmp_def)
  have keys: "map fst entries = map fst (pushAll kvs [])"
    by (simp only: entries_def keys_sorted_entries)
  have inv: "distinct (map fst (pushAll kvs []))" "set (map fst (pushAll kvs [])) = fst ` set kvs"
    using pushAll_invariant [of kvs] by auto
  have d: "distinct (map fst (arraySort cmp entries))"
    by (simp only: distinct_keys_arraySort keys inv)
  have "fst ` set (arraySort cmp entries) = set (map fst entries)"
    by (simp add: set_arraySort)
  also have "\<dots> = fst ` set kvs"
    by (simp only: keys inv)
  also have "\<dots> = {k. \<exists>ob\<in>set ?all. map_option groupName (find ?P (groups ob)) = Some k}"
    by (simp only: kvs_def group_entry_keys)
  finally have k: "fst ` set (arraySort cmp entries)
      = {k. \<exists>ob\<in>set ?all. map_option groupName (find ?P (groups ob)) = Some k}" .
  have e: "mset obs = mset (filter (\<lambda>ob. map_option groupName (find ?P (groups ob)) = Some k) ?all)
      \<and> sorted_wrt (\<lambda>a b. resourcesAllocated a \<ge> resourcesAllocated b) obs"
    if "(k, obs) \<in> set (arraySort cmp entries)" for k obs
  proof -
    from that have "(k, obs) \<in> set entries" by (simp add: set_arraySort)
    from sorted_entries [OF this [unfolded entries_def]] show ?thesis
      by (simp only: kvs_def group_entry_members)
  qed
  have s: "sorted_wrt
      (\<lambda>(g1, obs1) (g2, obs2).
         tra obs1 > tra obs2 \<or> (tra obs1 = tra obs2 \<and> localeCompare g1 g2 \<le> 0))
      (arraySort cmp entries)"
    if total: "\<forall>a b. localeCompare a b \<le> 0 \<or> localeCompare b a \<le> 0"
      and trans: "\<forall>a b d. localeCompare a b \<le> 0 \<and> localeCompare b d \<le> 0 \<longrightarrow> localeCompare a d \<le> 0"
  proof (rule sorted_wrt_arraySort)
    fix a b d :: "string \<times> immutableObjective list"
    obtain g1 obs1 g2 obs2 g3 obs3 where abd: "a = (g1, obs1)" "b = (g2, obs2)" "d = (g3, obs3)"
      by (cases a, cases b, cases d) auto
    show "(case a of (g1, obs1) \<Rightarrow> \<lambda>(g2, obs2).
            tra obs1 > tra obs2 \<or> (tra obs1 = tra obs2 \<and> localeCompare g1 g2 \<le> 0)) b
        \<or> (case b of (g1, obs1) \<Rightarrow> \<lambda>(g2, obs2).
            tra obs1 > tra obs2 \<or> (tra obs1 = tra obs2 \<and> localeCompare g1 g2 \<le> 0)) a"
      using total [rule_format, of g1 g2] by (auto simp: abd)
    show "(case a of (g1, obs1) \<Rightarrow> \<lambda>(g2, obs2).
            tra obs1 > tra obs2 \<or> (tra obs1 = tra obs2 \<and> localeCompare g1 g2 \<le> 0)) d"
      if "(case a of (g1, obs1) \<Rightarrow> \<lambda>(g2, obs2).
            tra obs1 > tra obs2 \<or> (tra obs1 = tra obs2 \<and> localeCompare g1 g2 \<le> 0)) b"
        and "(case b of (g1, obs1) \<Rightarrow> \<lambda>(g2, obs2).
            tra obs1 > tra obs2 \<or> (tra obs1 = tra obs2 \<and> localeCompare g1 g2 \<le> 0)) d"
      using that trans [rule_format, of g1 g2 g3] by (auto simp: abd)
    show "cmp a b \<le> 0 \<longleftrightarrow>
        (case a of (g1, obs1) \<Rightarrow> \<lambda>(g2, obs2).
            tra obs1 > tra obs2 \<or> (tra obs1 = tra obs2 \<and> localeCompare g1 g2 \<le> 0)) b"
      by (auto simp: abd cmp_def)
  qed
  from d k e s show ?thesis
    unfolding result totalAssignedResources_def by blast
qed

theorem objectivesByGroup_entries_witness:
  "(let localeCompare = (\<lambda>a b :: string. if a < b then - 1 else if a = b then 0 else 1);
        tra = (\<lambda>obs. sum_list (map resourcesAllocated obs));
        api = \<lparr>name = ''api'', groups = [\<lparr>groupType = ''team'', groupName = ''x''\<rparr>, \<lparr>groupType = ''proj'', groupName = ''infra''\<rparr>], tags = [\<lparr>name_tag = ''q3''\<rparr>, \<lparr>name_tag = ''risk''\<rparr>], assignments = [], resourcesAllocated = 2\<rparr>;
        billing = \<lparr>name = ''billing'', groups = [\<lparr>groupType = ''proj'', groupName = ''core''\<rparr>, \<lparr>groupType = ''proj'', groupName = ''infra''\<rparr>], tags = [\<lparr>name_tag = ''risk''\<rparr>], assignments = [], resourcesAllocated = 4\<rparr>;
        cache = \<lparr>name = ''cache'', groups = [\<lparr>groupType = ''proj'', groupName = ''infra''\<rparr>], tags = [\<lparr>name_tag = ''q3''\<rparr>], assignments = [], resourcesAllocated = 3\<rparr>;
        export = \<lparr>name = ''export'', groups = [\<lparr>groupType = ''proj'', groupName = ''apps''\<rparr>], tags = [\<lparr>name_tag = ''q3''\<rparr>, \<lparr>name_tag = ''q3''\<rparr>], assignments = [], resourcesAllocated = 4\<rparr>;
        c = \<lparr>period = \<lparr>buckets = [\<lparr>objectives_imm = [\<lparr>name = ''api'', groups = [\<lparr>groupType = ''team'', groupName = ''x''\<rparr>, \<lparr>groupType = ''proj'', groupName = ''infra''\<rparr>], tags = [\<lparr>name_tag = ''q3''\<rparr>, \<lparr>name_tag = ''risk''\<rparr>], assignments = [], resourcesAllocated = 2\<rparr>,
        \<lparr>name = ''billing'', groups = [\<lparr>groupType = ''proj'', groupName = ''core''\<rparr>, \<lparr>groupType = ''proj'', groupName = ''infra''\<rparr>], tags = [\<lparr>name_tag = ''risk''\<rparr>], assignments = [], resourcesAllocated = 4\<rparr>]\<rparr>,
      \<lparr>objectives_imm = [\<lparr>name = ''cache'', groups = [\<lparr>groupType = ''proj'', groupName = ''infra''\<rparr>], tags = [\<lparr>name_tag = ''q3''\<rparr>], assignments = [], resourcesAllocated = 3\<rparr>,
        \<lparr>name = ''docs'', groups = [\<lparr>groupType = ''team'', groupName = ''y''\<rparr>], tags = [], assignments = [], resourcesAllocated = 9\<rparr>,
        \<lparr>name = ''export'', groups = [\<lparr>groupType = ''proj'', groupName = ''apps''\<rparr>], tags = [\<lparr>name_tag = ''q3''\<rparr>, \<lparr>name_tag = ''q3''\<rparr>], assignments = [], resourcesAllocated = 4\<rparr>]\<rparr>]\<rparr>,
    groupType_component = Some ''proj''\<rparr>
    in (\<forall>a b. localeCompare a b \<le> 0 \<or> localeCompare b a \<le> 0)
       \<and> (\<forall>a b d. localeCompare a b \<le> 0 \<and> localeCompare b d \<le> 0 \<longrightarrow> localeCompare a d \<le> 0)
       \<and> objectivesByGroup localeCompare tra c
           = [(''infra'', [cache, api]), (''apps'', [export]), (''core'', [billing])]
       \<and> sorted_wrt
             (\<lambda>(g1, obs1) (g2, obs2).
                totalAssignedResources tra obs1 > totalAssignedResources tra obs2
                \<or> (totalAssignedResources tra obs1 = totalAssignedResources tra obs2
                    \<and> localeCompare g1 g2 \<le> 0))
             (objectivesByGroup localeCompare tra c))"
proof -
  let ?lc = "(\<lambda>a b :: string. if a < b then - 1 else if a = b then 0 else 1) :: string \<Rightarrow> string \<Rightarrow> number"
  let ?tra = "(\<lambda>obs. sum_list (map resourcesAllocated obs)) :: immutableObjective list \<Rightarrow> number"
  let ?c = "\<lparr>period = \<lparr>buckets = [\<lparr>objectives_imm = [\<lparr>name = ''api'', groups = [\<lparr>groupType = ''team'', groupName = ''x''\<rparr>, \<lparr>groupType = ''proj'', groupName = ''infra''\<rparr>], tags = [\<lparr>name_tag = ''q3''\<rparr>, \<lparr>name_tag = ''risk''\<rparr>], assignments = [], resourcesAllocated = 2\<rparr>,
        \<lparr>name = ''billing'', groups = [\<lparr>groupType = ''proj'', groupName = ''core''\<rparr>, \<lparr>groupType = ''proj'', groupName = ''infra''\<rparr>], tags = [\<lparr>name_tag = ''risk''\<rparr>], assignments = [], resourcesAllocated = 4\<rparr>]\<rparr>,
      \<lparr>objectives_imm = [\<lparr>name = ''cache'', groups = [\<lparr>groupType = ''proj'', groupName = ''infra''\<rparr>], tags = [\<lparr>name_tag = ''q3''\<rparr>], assignments = [], resourcesAllocated = 3\<rparr>,
        \<lparr>name = ''docs'', groups = [\<lparr>groupType = ''team'', groupName = ''y''\<rparr>], tags = [], assignments = [], resourcesAllocated = 9\<rparr>,
        \<lparr>name = ''export'', groups = [\<lparr>groupType = ''proj'', groupName = ''apps''\<rparr>], tags = [\<lparr>name_tag = ''q3''\<rparr>, \<lparr>name_tag = ''q3''\<rparr>], assignments = [], resourcesAllocated = 4\<rparr>]\<rparr>]\<rparr>,
    groupType_component = Some ''proj''\<rparr>"
  have total: "\<forall>a b. ?lc a b \<le> 0 \<or> ?lc b a \<le> 0"
    by auto
  have trans: "\<forall>a b d. ?lc a b \<le> 0 \<and> ?lc b d \<le> 0 \<longrightarrow> ?lc a d \<le> 0"
    by (auto split: if_splits)
  have run: "objectivesByGroup ?lc ?tra ?c
      = [(''infra'', [\<lparr>name = ''cache'', groups = [\<lparr>groupType = ''proj'', groupName = ''infra''\<rparr>], tags = [\<lparr>name_tag = ''q3''\<rparr>], assignments = [], resourcesAllocated = 3\<rparr>, \<lparr>name = ''api'', groups = [\<lparr>groupType = ''team'', groupName = ''x''\<rparr>, \<lparr>groupType = ''proj'', groupName = ''infra''\<rparr>], tags = [\<lparr>name_tag = ''q3''\<rparr>, \<lparr>name_tag = ''risk''\<rparr>], assignments = [], resourcesAllocated = 2\<rparr>]), (''apps'', [\<lparr>name = ''export'', groups = [\<lparr>groupType = ''proj'', groupName = ''apps''\<rparr>], tags = [\<lparr>name_tag = ''q3''\<rparr>, \<lparr>name_tag = ''q3''\<rparr>], assignments = [], resourcesAllocated = 4\<rparr>]), (''core'', [\<lparr>name = ''billing'', groups = [\<lparr>groupType = ''proj'', groupName = ''core''\<rparr>, \<lparr>groupType = ''proj'', groupName = ''infra''\<rparr>], tags = [\<lparr>name_tag = ''risk''\<rparr>], assignments = [], resourcesAllocated = 4\<rparr>])]"
    by (simp add: objectivesByGroup_def pushOrSet_def mapHas_def mapGet_def arraySort_def
          totalAssignedResources_def)
  from objectivesByGroup_entries [of ?lc ?tra ?c] total trans
  have "sorted_wrt
      (\<lambda>(g1, obs1) (g2, obs2).
         totalAssignedResources ?tra obs1 > totalAssignedResources ?tra obs2
         \<or> (totalAssignedResources ?tra obs1 = totalAssignedResources ?tra obs2
             \<and> ?lc g1 g2 \<le> 0))
      (objectivesByGroup ?lc ?tra ?c)"
    by blast
  with total trans run show ?thesis
    unfolding Let_def by blast
qed

text \<open>
  C2. For every period, \<open>objectivesByTag\<close> returns one entry per tag name. The entry of a
  tag name holds every objective, of every bucket, once for each of its tags with that
  name, and nothing else; an objective without tags is in no entry. Within an entry the
  objectives are in descending order of their allocated resources, and the entries are
  in ascending order of the tag name, as \<^verbatim>\<open>localeCompare\<close> orders names.
\<close>

theorem objectivesByTag_entries:
  "distinct (map fst (objectivesByTag localeCompare c))
   \<and> fst ` set (objectivesByTag localeCompare c)
       = {k. \<exists>ob\<in>set (concat (map objectives_imm (buckets (period c)))).
               \<exists>t\<in>set (tags ob). name_tag t = k}
   \<and> (\<forall>(k, obs)\<in>set (objectivesByTag localeCompare c).
         mset obs
           = mset [ob. ob \<leftarrow> concat (map objectives_imm (buckets (period c))),
                       t \<leftarrow> tags ob, name_tag t = k]
         \<and> sorted_wrt (\<lambda>a b. resourcesAllocated a \<ge> resourcesAllocated b) obs)
   \<and> ((\<forall>a b. localeCompare a b \<le> 0 \<or> localeCompare b a \<le> 0)
        \<and> (\<forall>a b d. localeCompare a b \<le> 0 \<and> localeCompare b d \<le> 0 \<longrightarrow> localeCompare a d \<le> 0)
       \<longrightarrow> sorted_wrt (\<lambda>(g1, _) (g2, _). localeCompare g1 g2 \<le> 0)
             (objectivesByTag localeCompare c))"
proof -
  let ?all = "concat (map objectives_imm (buckets (period c)))"
  define kvs where "kvs = concat (map (\<lambda>ob. map (\<lambda>t. (name_tag t, ob)) (tags ob)) ?all)"
  define entries where "entries = map (\<lambda>(g, obs).
      (g, arraySort (\<lambda>o1 o2. resourcesAllocated o2 - resourcesAllocated o1) obs)) (pushAll kvs [])"
  define cmp where "cmp = (\<lambda>(g1 :: string, _ :: immutableObjective list)
      (g2 :: string, _ :: immutableObjective list). localeCompare g1 g2)"
  have result: "objectivesByTag localeCompare c = arraySort cmp entries"
    by (simp only: objectivesByTag_as_pushAll kvs_def entries_def cmp_def)
  have keys: "map fst entries = map fst (pushAll kvs [])"
    by (simp only: entries_def keys_sorted_entries)
  have inv: "distinct (map fst (pushAll kvs []))" "set (map fst (pushAll kvs [])) = fst ` set kvs"
    using pushAll_invariant [of kvs] by auto
  have d: "distinct (map fst (arraySort cmp entries))"
    by (simp only: distinct_keys_arraySort keys inv)
  have "fst ` set (arraySort cmp entries) = set (map fst entries)"
    by (simp add: set_arraySort)
  also have "\<dots> = fst ` set kvs"
    by (simp only: keys inv)
  also have "\<dots> = {k. \<exists>ob\<in>set ?all. \<exists>t\<in>set (tags ob). name_tag t = k}"
    by (simp only: kvs_def tag_entry_keys)
  finally have k: "fst ` set (arraySort cmp entries)
      = {k. \<exists>ob\<in>set ?all. \<exists>t\<in>set (tags ob). name_tag t = k}" .
  have e: "mset obs = mset [ob. ob \<leftarrow> ?all, t \<leftarrow> tags ob, name_tag t = k]
      \<and> sorted_wrt (\<lambda>a b. resourcesAllocated a \<ge> resourcesAllocated b) obs"
    if "(k, obs) \<in> set (arraySort cmp entries)" for k obs
  proof -
    from that have "(k, obs) \<in> set entries" by (simp add: set_arraySort)
    from sorted_entries [OF this [unfolded entries_def]] show ?thesis
      by (simp only: kvs_def tag_entry_members)
  qed
  have s: "sorted_wrt (\<lambda>(g1, _) (g2, _). localeCompare g1 g2 \<le> 0) (arraySort cmp entries)"
    if total: "\<forall>a b. localeCompare a b \<le> 0 \<or> localeCompare b a \<le> 0"
      and trans: "\<forall>a b d. localeCompare a b \<le> 0 \<and> localeCompare b d \<le> 0 \<longrightarrow> localeCompare a d \<le> 0"
  proof (rule sorted_wrt_arraySort)
    fix a b d :: "string \<times> immutableObjective list"
    obtain g1 obs1 g2 obs2 g3 obs3 where abd: "a = (g1, obs1)" "b = (g2, obs2)" "d = (g3, obs3)"
      by (cases a, cases b, cases d) auto
    show "(case a of (g1, _) \<Rightarrow> \<lambda>(g2, _). localeCompare g1 g2 \<le> 0) b
        \<or> (case b of (g1, _) \<Rightarrow> \<lambda>(g2, _). localeCompare g1 g2 \<le> 0) a"
      using total [rule_format, of g1 g2] by (auto simp: abd)
    show "(case a of (g1, _) \<Rightarrow> \<lambda>(g2, _). localeCompare g1 g2 \<le> 0) d"
      if "(case a of (g1, _) \<Rightarrow> \<lambda>(g2, _). localeCompare g1 g2 \<le> 0) b"
        and "(case b of (g1, _) \<Rightarrow> \<lambda>(g2, _). localeCompare g1 g2 \<le> 0) d"
      using that trans [rule_format, of g1 g2 g3] by (auto simp: abd)
    show "cmp a b \<le> 0 \<longleftrightarrow> (case a of (g1, _) \<Rightarrow> \<lambda>(g2, _). localeCompare g1 g2 \<le> 0) b"
      by (auto simp: abd cmp_def)
  qed
  from d k e s show ?thesis
    unfolding result by blast
qed

theorem objectivesByTag_entries_witness:
  "(let localeCompare = (\<lambda>a b :: string. if a < b then - 1 else if a = b then 0 else 1);
        api = \<lparr>name = ''api'', groups = [], tags = [\<lparr>name_tag = ''q3''\<rparr>, \<lparr>name_tag = ''risk''\<rparr>], assignments = [], resourcesAllocated = 2\<rparr>;
        billing = \<lparr>name = ''billing'', groups = [], tags = [\<lparr>name_tag = ''risk''\<rparr>], assignments = [], resourcesAllocated = 4\<rparr>;
        cache = \<lparr>name = ''cache'', groups = [], tags = [\<lparr>name_tag = ''q3''\<rparr>], assignments = [], resourcesAllocated = 3\<rparr>;
        c = \<lparr>period = \<lparr>buckets = [\<lparr>objectives_imm = [\<lparr>name = ''api'', groups = [], tags = [\<lparr>name_tag = ''q3''\<rparr>, \<lparr>name_tag = ''risk''\<rparr>], assignments = [], resourcesAllocated = 2\<rparr>,
        \<lparr>name = ''billing'', groups = [], tags = [\<lparr>name_tag = ''risk''\<rparr>], assignments = [], resourcesAllocated = 4\<rparr>]\<rparr>,
      \<lparr>objectives_imm = [\<lparr>name = ''cache'', groups = [], tags = [\<lparr>name_tag = ''q3''\<rparr>], assignments = [], resourcesAllocated = 3\<rparr>,
        \<lparr>name = ''docs'', groups = [], tags = [], assignments = [], resourcesAllocated = 9\<rparr>]\<rparr>]\<rparr>,
    groupType_component = None\<rparr>
    in (\<forall>a b. localeCompare a b \<le> 0 \<or> localeCompare b a \<le> 0)
       \<and> (\<forall>a b d. localeCompare a b \<le> 0 \<and> localeCompare b d \<le> 0 \<longrightarrow> localeCompare a d \<le> 0)
       \<and> objectivesByTag localeCompare c = [(''q3'', [cache, api]), (''risk'', [billing, api])]
       \<and> sorted_wrt (\<lambda>(g1, _) (g2, _). localeCompare g1 g2 \<le> 0)
             (objectivesByTag localeCompare c))"
proof -
  let ?lc = "(\<lambda>a b :: string. if a < b then - 1 else if a = b then 0 else 1) :: string \<Rightarrow> string \<Rightarrow> number"
  let ?c = "\<lparr>period = \<lparr>buckets = [\<lparr>objectives_imm = [\<lparr>name = ''api'', groups = [], tags = [\<lparr>name_tag = ''q3''\<rparr>, \<lparr>name_tag = ''risk''\<rparr>], assignments = [], resourcesAllocated = 2\<rparr>,
        \<lparr>name = ''billing'', groups = [], tags = [\<lparr>name_tag = ''risk''\<rparr>], assignments = [], resourcesAllocated = 4\<rparr>]\<rparr>,
      \<lparr>objectives_imm = [\<lparr>name = ''cache'', groups = [], tags = [\<lparr>name_tag = ''q3''\<rparr>], assignments = [], resourcesAllocated = 3\<rparr>,
        \<lparr>name = ''docs'', groups = [], tags = [], assignments = [], resourcesAllocated = 9\<rparr>]\<rparr>]\<rparr>,
    groupType_component = None\<rparr>"
  have total: "\<forall>a b. ?lc a b \<le> 0 \<or> ?lc b a \<le> 0"
    by auto
  have trans: "\<forall>a b d. ?lc a b \<le> 0 \<and> ?lc b d \<le> 0 \<longrightarrow> ?lc a d \<le> 0"
    by (auto split: if_splits)
  have run: "objectivesByTag ?lc ?c = [(''q3'', [\<lparr>name = ''cache'', groups = [], tags = [\<lparr>name_tag = ''q3''\<rparr>], assignments = [], resourcesAllocated = 3\<rparr>, \<lparr>name = ''api'', groups = [], tags = [\<lparr>name_tag = ''q3''\<rparr>, \<lparr>name_tag = ''risk''\<rparr>], assignments = [], resourcesAllocated = 2\<rparr>]), (''risk'', [\<lparr>name = ''billing'', groups = [], tags = [\<lparr>name_tag = ''risk''\<rparr>], assignments = [], resourcesAllocated = 4\<rparr>, \<lparr>name = ''api'', groups = [], tags = [\<lparr>name_tag = ''q3''\<rparr>, \<lparr>name_tag = ''risk''\<rparr>], assignments = [], resourcesAllocated = 2\<rparr>])]"
    by (simp add: objectivesByTag_def pushOrSet_def mapHas_def mapGet_def arraySort_def)
  from objectivesByTag_entries [of ?lc ?c] total trans
  have "sorted_wrt (\<lambda>(g1, _) (g2, _). ?lc g1 g2 \<le> 0) (objectivesByTag ?lc ?c)"
    by blast
  with total trans run show ?thesis
    unfolding Let_def by blast
qed

end
